theory Spec2Isabelle
  imports Main "HOL-Library.Word" "HOL-Library.Sublist"
begin

section \<open>JavaScript strings\<close>

text \<open>
  A JavaScript string is a finite sequence of 16-bit code units. Every index and length
  the program computes (\<^verbatim>\<open>indexOf\<close>, \<^verbatim>\<open>substring\<close>, \<^verbatim>\<open>length\<close>) counts code units,
  so a string is a list of 16-bit words. \<open>js\<close> turns an ASCII literal of the source into
  such a list.
\<close>

type_synonym jsstring = \<open>16 word list\<close>

definition js :: \<open>string \<Rightarrow> jsstring\<close> where
  \<open>js s = map (\<lambda>ch. of_nat (of_char ch)) s\<close>

abbreviation semicolon :: \<open>16 word\<close> where \<open>semicolon \<equiv> 0x3B\<close>
abbreviation equals_sign :: \<open>16 word\<close> where \<open>equals_sign \<equiv> 0x3D\<close>
abbreviation space :: \<open>16 word\<close> where \<open>space \<equiv> 0x20\<close>

text \<open>
  \<open>search p c\<close> is the least offset at which \<open>p\<close> occurs in \<open>c\<close>, if any: the loop inside
  \<^verbatim>\<open>String.prototype.indexOf\<close>.
\<close>

primrec search :: \<open>'a list \<Rightarrow> 'a list \<Rightarrow> nat option\<close> where
  \<open>search p [] = (if p = [] then Some 0 else None)\<close>
| \<open>search p (x # xs) =
     (if prefix p (x # xs) then Some 0 else map_option Suc (search p xs))\<close>

text \<open>
  \<^verbatim>\<open>c.indexOf(p, position)\<close>: the position is clamped to \<open>[0, length c]\<close>; the result is
  the least index not below it at which \<open>p\<close> occurs, or \<open>-1\<close>.
\<close>

definition indexOf :: \<open>'a list \<Rightarrow> 'a list \<Rightarrow> int \<Rightarrow> int\<close> where
  \<open>indexOf c p position =
     (let start = nat (min (max position 0) (int (length c)))
      in case search p (drop start c) of
           None \<Rightarrow> - 1
         | Some k \<Rightarrow> int (start + k))\<close>

text \<open>
  \<^verbatim>\<open>c.substring(start, end)\<close>: both arguments are clamped to \<open>[0, length c]\<close> and swapped
  when the first is the larger one.
\<close>

definition substring :: \<open>'a list \<Rightarrow> int \<Rightarrow> int \<Rightarrow> 'a list\<close> where
  \<open>substring c start end =
     (let len = int (length c);
          finalStart = min (max start 0) len;
          finalEnd = min (max end 0) len;
          from = min finalStart finalEnd;
          to = max finalStart finalEnd
      in take (nat (to - from)) (drop (nat from) c))\<close>

section \<open>The lookup routine of the generated script\<close>

text \<open>
  The generated script defines, with \<open>c\<close> the normalized buffer
  \<^verbatim>\<open>"; " + document.cookie\<close>:
  \<^verbatim>\<open>
  f=function(n,d){
    var p="; "+n+"=",i=c.indexOf(p);
    if(i<0)return d;
    var j=c.indexOf(";",i+1);
    return c.substring(i+p.length,j<0?c.length:j)
  }\<close>
  \<open>script_f c n d\<close> is that function, the captured buffer \<open>c\<close> made a parameter. None of
  its operations (string concatenation, \<^verbatim>\<open>indexOf\<close>, \<^verbatim>\<open>substring\<close>, integer comparison)
  can throw on strings, so the model has no error result.
\<close>

definition script_f :: \<open>jsstring \<Rightarrow> jsstring \<Rightarrow> jsstring \<Rightarrow> jsstring\<close> where
  \<open>script_f c n d =
     (let p = js ''; '' @ n @ js ''='';
          i = indexOf c p 0
      in if i < 0 then d
         else let j = indexOf c (js '';'') (i + 1)
              in substring c (i + int (length p)) (if j < 0 then int (length c) else j))\<close>

text \<open>The buffer the script builds from the persisted-store string.\<close>

definition normalized :: \<open>jsstring \<Rightarrow> jsstring\<close> where
  \<open>normalized store = js ''; '' @ store\<close>

text \<open>
  The exceptions the program and the built-in functions it calls can throw.
\<close>

datatype error = ReferenceError | TypeError | URIError | Error jsstring

text \<open>
  The routine as it runs. Its variable \<open>c\<close> is declared with \<^verbatim>\<open>var\<close>: it is \<^verbatim>\<open>undefined\<close>
  until \<^verbatim>\<open>"; "+document.cookie\<close> has been assigned to it, and a string from then on. A
  method call or a property read on \<^verbatim>\<open>undefined\<close> throws \<^verbatim>\<open>TypeError\<close>; on a string,
  \<^verbatim>\<open>indexOf\<close>, \<^verbatim>\<open>substring\<close> and \<^verbatim>\<open>length\<close> return for all arguments. \<open>f_call\<close> evaluates
  the body of \<open>f\<close> in that order, and stops at the first exception.
\<close>

datatype jsvalue = Undefined | Str jsstring

definition call_indexOf :: \<open>jsvalue \<Rightarrow> jsstring \<Rightarrow> int \<Rightarrow> error + int\<close> where
  \<open>call_indexOf this p position =
     (case this of Undefined \<Rightarrow> Inl TypeError | Str c \<Rightarrow> Inr (indexOf c p position))\<close>

definition call_substring :: \<open>jsvalue \<Rightarrow> int \<Rightarrow> int \<Rightarrow> error + jsstring\<close> where
  \<open>call_substring this start end =
     (case this of Undefined \<Rightarrow> Inl TypeError | Str c \<Rightarrow> Inr (substring c start end))\<close>

definition get_length :: \<open>jsvalue \<Rightarrow> error + int\<close> where
  \<open>get_length this =
     (case this of Undefined \<Rightarrow> Inl TypeError | Str c \<Rightarrow> Inr (int (length c)))\<close>

definition f_call :: \<open>jsvalue \<Rightarrow> jsstring \<Rightarrow> jsstring \<Rightarrow> error + jsstring\<close> where
  \<open>f_call c n d =
     (let p = js ''; '' @ n @ js ''=''
      in case call_indexOf c p 0 of
           Inl e \<Rightarrow> Inl e
         | Inr i \<Rightarrow>
             if i < 0 then Inr d
             else (case call_indexOf c (js '';'') (i + 1) of
                     Inl e \<Rightarrow> Inl e
                   | Inr j \<Rightarrow>
                       (case (if j < 0 then get_length c else Inr j) of
                          Inl e \<Rightarrow> Inl e
                        | Inr to \<Rightarrow> call_substring c (i + int (length p)) to)))\<close>

text \<open>
  \<^verbatim>\<open>parts.join(sep)\<close> of \<^verbatim>\<open>Array.prototype.join\<close>: the parts in order with the separator
  between neighbours; the empty array gives the empty string.
\<close>

fun join :: \<open>'a list \<Rightarrow> 'a list list \<Rightarrow> 'a list\<close> where
  \<open>join sep [] = []\<close>
| \<open>join sep [x] = x\<close>
| \<open>join sep (x # y # ys) = x @ sep @ join sep (y # ys)\<close>

section \<open>The script synthesizer\<close>

text \<open>\<^verbatim>\<open>interface PrehydrateValueConfig { cookie; cssVar; defaultValue }\<close>, all strings.\<close>

record PrehydrateValueConfig =
  cookie :: jsstring
  cssVar :: jsstring
  defaultValue :: jsstring

text \<open>
  The template literal mapped over the configs:
  \<^verbatim>\<open>`s.setProperty("${c.cssVar}",f("${c.cookie}","${c.defaultValue}"))`\<close>.
  The fields are spliced in as they are; nothing is escaped.
\<close>

definition setter :: \<open>PrehydrateValueConfig \<Rightarrow> jsstring\<close> where
  \<open>setter c =
     js ''s.setProperty("'' @ cssVar c @ js ''",f("'' @ cookie c @ js ''","''
       @ defaultValue c @ js ''"))''\<close>

definition generatePrehydrateScript :: \<open>PrehydrateValueConfig list \<Rightarrow> jsstring\<close> where
  \<open>generatePrehydrateScript configs =
     (let setters = join (js '';'') (map setter configs)
      in join []
           [js ''(function(){'',
            js ''var c="; "+document.cookie,'',
            js ''s=document.documentElement.style,'',
            js ''f=function(n,d){'',
            js ''var p="; "+n+"=",i=c.indexOf(p);'',
            js ''if(i<0)return d;'',
            js ''var j=c.indexOf(";",i+1);'',
            js ''return c.substring(i+p.length,j<0?c.length:j)'',
            js ''};'',
            setters,
            js ''}())''])\<close>

text \<open>
  Occurrences of a text in a text, counted at every start position, as the repository's
  tests count \<^verbatim>\<open>script.match(/document\.cookie/g)\<close> and
  \<^verbatim>\<open>script.match(/s\.setProperty/g)\<close> (neither text can overlap itself).
\<close>

primrec occurrences :: \<open>'a list \<Rightarrow> 'a list \<Rightarrow> nat\<close> where
  \<open>occurrences p [] = 0\<close>
| \<open>occurrences p (x # xs) = (if prefix p (x # xs) then 1 else 0) + occurrences p xs\<close>

section \<open>The document: style properties and the cookie jar\<close>

text \<open>
  The program reaches the browser through \<^verbatim>\<open>document.documentElement.style\<close> and
  \<^verbatim>\<open>document.cookie\<close>. Both are modelled at the level the program observes.

  The style declaration is a finite map from property names to the texts
  \<^verbatim>\<open>getPropertyValue(name)\<close> returns, the empty string for a property that is not set.
  What \<^verbatim>\<open>setProperty(name, v)\<close> stores is decided by the style engine of the browser, not
  by the program, so the engine is a part of the document: \<open>engine name v\<close> is \<open>None\<close>
  when the engine ignores the call because \<open>v\<close> does not parse as a value of the
  property, and \<open>Some s\<close> when it stores the value, \<open>s\<close> being the text that
  \<^verbatim>\<open>getPropertyValue(name)\<close> returns from then on (for a custom property, \<open>v\<close> without the
  white space around it). The empty string removes the property. The declaration is
  kept name by name, as custom properties (names that start with \<open>--\<close>) are: a call
  changes the entry of its own name only.
\<close>

type_synonym style_decl = \<open>jsstring \<rightharpoonup> jsstring\<close>

type_synonym style_engine = \<open>jsstring \<Rightarrow> jsstring \<Rightarrow> jsstring option\<close>

definition setProperty ::
  \<open>style_engine \<Rightarrow> style_decl \<Rightarrow> jsstring \<Rightarrow> jsstring \<Rightarrow> style_decl\<close> where
  \<open>setProperty engine st name v =
     (if v = [] then st(name := None)
      else case engine name v of
             None \<Rightarrow> st
           | Some stored \<Rightarrow> st(name \<mapsto> stored))\<close>

definition getPropertyValue :: \<open>style_decl \<Rightarrow> jsstring \<Rightarrow> jsstring\<close> where
  \<open>getPropertyValue st name = (case st name of None \<Rightarrow> [] | Some v \<Rightarrow> v)\<close>

text \<open>
  The cookie jar is the list of stored name/value pairs: the cookies of the document's
  host for the path \<open>/\<close>, which are the ones the program writes, with no limit on their
  size or number. Reading \<^verbatim>\<open>document.cookie\<close> gives the pairs as \<^verbatim>\<open>name=value\<close> joined by
  \<^verbatim>\<open>"; "\<close>.
\<close>

type_synonym cookie_jar = \<open>(jsstring \<times> jsstring) list\<close>

definition document_cookie :: \<open>cookie_jar \<Rightarrow> jsstring\<close> where
  \<open>document_cookie jar = join (js ''; '') (map (\<lambda>(k, v). k @ js ''='' @ v) jar)\<close>

text \<open>
  Assigning to \<^verbatim>\<open>document.cookie\<close> (RFC 6265, section 5.2): the name-value pair is the
  text before the first \<open>;\<close>; it is ignored when it has no \<open>=\<close> or an empty name; name
  and value are the texts before and after its first \<open>=\<close>, with surrounding white space
  removed; a cookie of the same name is replaced in place, a new one is added at the
  end. The attributes after the first \<open>;\<close> are not interpreted: the model covers
  assignments whose attributes keep the cookie stored and visible, as
  \<^verbatim>\<open>path=/;max-age=31536000;SameSite=Lax\<close> does.
\<close>

definition is_wsp :: \<open>16 word \<Rightarrow> bool\<close> where
  \<open>is_wsp u \<longleftrightarrow> u = 0x20 \<or> u = 0x09\<close>

definition trim_wsp :: \<open>jsstring \<Rightarrow> jsstring\<close> where
  \<open>trim_wsp s = rev (dropWhile is_wsp (rev (dropWhile is_wsp s)))\<close>

fun store_cookie :: \<open>jsstring \<Rightarrow> jsstring \<Rightarrow> cookie_jar \<Rightarrow> cookie_jar\<close> where
  \<open>store_cookie name v [] = [(name, v)]\<close>
| \<open>store_cookie name v ((k, old) # jar) =
     (if k = name then (name, v) # jar else (k, old) # store_cookie name v jar)\<close>

definition assign_document_cookie :: \<open>jsstring \<Rightarrow> cookie_jar \<Rightarrow> cookie_jar\<close> where
  \<open>assign_document_cookie s jar =
     (let pair = takeWhile (\<lambda>u. u \<noteq> semicolon) s
      in if equals_sign \<notin> set pair then jar
         else let name = trim_wsp (takeWhile (\<lambda>u. u \<noteq> equals_sign) pair);
                  v = trim_wsp (drop 1 (dropWhile (\<lambda>u. u \<noteq> equals_sign) pair))
              in if name = [] then jar else store_cookie name v jar)\<close>

record document =
  style :: style_decl
  jar :: cookie_jar
  engine :: style_engine

text \<open>
  An engine for the closed examples below: it takes every value and stores it without
  the white space around it, which is what browsers do with the values those examples
  give to a custom property (such as \<open>300\<close>, \<open>999\<close> and \<open> 300 \<close>).
\<close>

definition trimming_engine :: style_engine where
  \<open>trimming_engine name v = Some (trim_wsp v)\<close>

text \<open>
  In a jar the browser has filled, no name holds \<open>;\<close> or \<open>=\<close> and no value holds \<open>;\<close>:
  the assignment above cuts the pair at the first \<open>;\<close> and the name at the first \<open>=\<close>.
\<close>

definition well_formed_jar :: \<open>cookie_jar \<Rightarrow> bool\<close> where
  \<open>well_formed_jar entries =
     list_all (\<lambda>(k, v). semicolon \<notin> set k \<and> equals_sign \<notin> set k \<and> semicolon \<notin> set v) entries\<close>

text \<open>
  A cookie name that an assignment stores as it is written: not empty, without \<open>;\<close> and
  \<open>=\<close>, and without white space at either end.
\<close>

definition plain_cookie_name :: \<open>jsstring \<Rightarrow> bool\<close> where
  \<open>plain_cookie_name k \<longleftrightarrow>
     k \<noteq> [] \<and> semicolon \<notin> set k \<and> equals_sign \<notin> set k \<and>
     \<not> is_wsp (hd k) \<and> \<not> is_wsp (last k)\<close>

text \<open>
  The emitted text splices the three fields of every config, unescaped, between double
  quotes. A field made of printable ASCII characters other than \<open>"\<close>, the backslash and
  \<open><\<close> denotes itself there: the string literal ends where the template ends it and
  holds no escape, and the text is read unchanged from an inline script element. With
  any other field the text may be another program, which is not modelled.
\<close>

definition literal_char :: \<open>16 word \<Rightarrow> bool\<close> where
  \<open>literal_char u \<longleftrightarrow> 0x20 \<le> u \<and> u \<le> 0x7E \<and> u \<noteq> 0x22 \<and> u \<noteq> 0x5C \<and> u \<noteq> 0x3C\<close>

definition modelled_config :: \<open>PrehydrateValueConfig \<Rightarrow> bool\<close> where
  \<open>modelled_config c \<longleftrightarrow>
     list_all literal_char (cssVar c) \<and> list_all literal_char (cookie c) \<and>
     list_all literal_char (defaultValue c) \<and> prefix (js ''--'') (cssVar c)\<close>

text \<open>
  Running the generated script in a document: \<open>c\<close> is read once, then each config sets
  its property to \<open>f(cookie, defaultValue)\<close>, in input order. The result is \<open>None\<close> where
  the run is not modelled: when a field of some config does not denote itself in the
  text, or a property is not a custom property.
\<close>

definition run_script :: \<open>PrehydrateValueConfig list \<Rightarrow> document \<Rightarrow> document option\<close> where
  \<open>run_script configs doc =
     (if list_all modelled_config configs then
        let c = normalized (document_cookie (jar doc))
        in Some (doc\<lparr>style :=
             fold (\<lambda>cfg s. setProperty (engine doc) s (cssVar cfg)
                              (script_f c (cookie cfg) (defaultValue cfg)))
               configs (style doc)\<rparr>)
      else None)\<close>

section \<open>Percent-encoding\<close>

text \<open>
  \<^verbatim>\<open>encodeURIComponent\<close> (ECMAScript, abstract operation Encode): a code unit of the
  unescaped set (letters, digits and \<^verbatim>\<open>-_.!~*'()\<close>) is kept; any other code point is
  written as the octets of its UTF-8 form, each as \<open>%\<close> and two upper-case hexadecimal
  digits; a surrogate code unit that is not part of a pair throws \<^verbatim>\<open>URIError\<close>.
\<close>

definition uriUnescaped :: \<open>16 word \<Rightarrow> bool\<close> where
  \<open>uriUnescaped u \<longleftrightarrow>
     u \<in> set (js ''ABCDEFGHIJKLMNOPQRSTUVWXYZabcdefghijklmnopqrstuvwxyz0123456789-_.!~*'()'')\<close>

definition hexDigit :: \<open>nat \<Rightarrow> 16 word\<close> where
  \<open>hexDigit d = js ''0123456789ABCDEF'' ! d\<close>

definition percent :: \<open>nat \<Rightarrow> jsstring\<close> where
  \<open>percent octet = js ''%'' @ [hexDigit (octet div 16), hexDigit (octet mod 16)]\<close>

definition utf8 :: \<open>nat \<Rightarrow> nat list\<close> where
  \<open>utf8 cp =
     (if cp < 0x80 then [cp]
      else if cp < 0x800 then [0xC0 + cp div 0x40, 0x80 + cp mod 0x40]
      else if cp < 0x10000 then
        [0xE0 + cp div 0x1000, 0x80 + cp div 0x40 mod 0x40, 0x80 + cp mod 0x40]
      else
        [0xF0 + cp div 0x40000, 0x80 + cp div 0x1000 mod 0x40,
         0x80 + cp div 0x40 mod 0x40, 0x80 + cp mod 0x40])\<close>

fun followed_by :: \<open>jsstring \<Rightarrow> error + jsstring \<Rightarrow> error + jsstring\<close> where
  \<open>followed_by r (Inl e) = Inl e\<close>
| \<open>followed_by r (Inr s) = Inr (r @ s)\<close>

fun encodeURIComponent :: \<open>jsstring \<Rightarrow> error + jsstring\<close> where
  \<open>encodeURIComponent [] = Inr []\<close>
| \<open>encodeURIComponent (u # us) =
     (if uriUnescaped u then followed_by [u] (encodeURIComponent us)
      else if u < 0xD800 \<or> 0xDFFF < u then
        followed_by (concat (map percent (utf8 (unat u)))) (encodeURIComponent us)
      else if 0xDC00 \<le> u then Inl URIError
      else (case us of
              [] \<Rightarrow> Inl URIError
            | l # rest \<Rightarrow>
                if 0xDC00 \<le> l \<and> l \<le> 0xDFFF then
                  followed_by
                    (concat (map percent
                       (utf8 (0x10000 + (unat u - 0xD800) * 0x400 + (unat l - 0xDC00)))))
                    (encodeURIComponent rest)
                else Inl URIError))\<close>

section \<open>The value cell\<close>

text \<open>
  \<open>createPrehydrateValue(config)\<close> closes over \<open>config\<close>; the model passes it as the first
  argument. A \<open>world\<close> is one mounted \<open>Provider\<close> with one consumer of
  \<open>useHydratedValue\<close>: the document (\<open>None\<close> where \<^verbatim>\<open>typeof document === "undefined"\<close>,
  that is during server rendering), the provider's state \<^verbatim>\<open>value\<close> and the consumer's
  state \<^verbatim>\<open>mounted\<close>. A state update (\<^verbatim>\<open>setValue\<close>, \<^verbatim>\<open>setMounted\<close>) is modelled by the state
  it commits.
\<close>

record world =
  doc :: \<open>document option\<close>
  valueState :: jsstring
  mountedState :: bool

text \<open>
  The initializer of \<^verbatim>\<open>useState\<close> in \<open>Provider\<close>; \<^verbatim>\<open>current || config.defaultValue\<close> takes
  the default when \<open>current\<close> is the empty string.
\<close>

definition Provider_init :: \<open>PrehydrateValueConfig \<Rightarrow> document option \<Rightarrow> jsstring\<close> where
  \<open>Provider_init config d =
     (case d of
        None \<Rightarrow> defaultValue config
      | Some live \<Rightarrow>
          let current = getPropertyValue (style live) (cssVar config)
          in if current \<noteq> [] then current else defaultValue config)\<close>

definition initial_world :: \<open>PrehydrateValueConfig \<Rightarrow> document option \<Rightarrow> world\<close> where
  \<open>initial_world config d =
     \<lparr>doc = d, valueState = Provider_init config d, mountedState = False\<rparr>\<close>

text \<open>The string \<open>set\<close> assigns to \<^verbatim>\<open>document.cookie\<close>.\<close>

definition cookie_assignment :: \<open>PrehydrateValueConfig \<Rightarrow> jsstring \<Rightarrow> error + jsstring\<close> where
  \<open>cookie_assignment config next =
     (case encodeURIComponent next of
        Inl e \<Rightarrow> Inl e
      | Inr encoded \<Rightarrow>
          Inr (cookie config @ js ''='' @ encoded @ js '';path=/;max-age=31536000;SameSite=Lax''))\<close>

text \<open>
  The callback \<open>set\<close> of \<open>Provider\<close>: three statements in order. A statement that throws
  ends the call and leaves the effects of the statements before it, so the error result
  carries the world reached.
\<close>

definition Provider_set ::
  \<open>PrehydrateValueConfig \<Rightarrow> jsstring \<Rightarrow> world \<Rightarrow> error \<times> world + world\<close> where
  \<open>Provider_set config next w =
     (let w1 = w\<lparr>valueState := next\<rparr>
      in case doc w1 of
           None \<Rightarrow> Inl (ReferenceError, w1)
         | Some live \<Rightarrow>
             let live1 = live\<lparr>style := setProperty (engine live) (style live) (cssVar config) next\<rparr>
             in case cookie_assignment config next of
                  Inl e \<Rightarrow> Inl (e, w1\<lparr>doc := Some live1\<rparr>)
                | Inr s \<Rightarrow>
                    Inr (w1\<lparr>doc := Some (live1\<lparr>jar := assign_document_cookie s (jar live1)\<rparr>)\<rparr>))\<close>

text \<open>
  The context holds \<^verbatim>\<open>[value, set]\<close> under a \<open>Provider\<close> and \<^verbatim>\<open>null\<close> outside one.
\<close>

type_synonym 's provided = \<open>(jsstring \<times> 's) option\<close>

definition useContext' :: \<open>PrehydrateValueConfig \<Rightarrow> 's provided \<Rightarrow> error + jsstring \<times> 's\<close> where
  \<open>useContext' config ctx =
     (case ctx of
        None \<Rightarrow>
          Inl (Error (js ''useValue/useHydratedValue must be used within a <Provider> for "''
                 @ cookie config @ js ''"''))
      | Some c \<Rightarrow> Inr c)\<close>

definition useValue :: \<open>PrehydrateValueConfig \<Rightarrow> 's provided \<Rightarrow> error + jsstring \<times> 's\<close> where
  \<open>useValue config ctx = useContext' config ctx\<close>

text \<open>\<open>mounted\<close> is the consumer's own state; the result's value is \<^verbatim>\<open>mounted ? value : null\<close>.\<close>

definition useHydratedValue ::
  \<open>PrehydrateValueConfig \<Rightarrow> 's provided \<Rightarrow> bool \<Rightarrow> error + jsstring option \<times> 's\<close> where
  \<open>useHydratedValue config ctx mounted =
     (case useContext' config ctx of
        Inl e \<Rightarrow> Inl e
      | Inr (v, setValue) \<Rightarrow> Inr (if mounted then Some v else None, setValue))\<close>

text \<open>What \<open>Provider\<close> renders into the context: \<^verbatim>\<open><Context value={[value, set]}>\<close>.\<close>

definition Provider_context ::
  \<open>PrehydrateValueConfig \<Rightarrow> world \<Rightarrow> (jsstring \<Rightarrow> world \<Rightarrow> error \<times> world + world) provided\<close> where
  \<open>Provider_context config w = Some (valueState w, Provider_set config)\<close>

text \<open>The value a consumer under the provider reads with each hook.\<close>

definition readForPresentation :: \<open>PrehydrateValueConfig \<Rightarrow> world \<Rightarrow> error + jsstring\<close> where
  \<open>readForPresentation config w = map_sum id fst (useValue config (Provider_context config w))\<close>







section \<open>Properties of the string primitives\<close>

lemma js_simps [simp]:
  \<open>js [] = []\<close>
  \<open>js (ch # s) = of_nat (of_char ch) # js s\<close>
  by (simp_all add: js_def)

lemma js_append: \<open>js (s @ t) = js s @ js t\<close>
  by (simp add: js_def)

lemma search_Some_prefix:
  \<open>search p c = Some i \<Longrightarrow> i \<le> length c \<and> prefix p (drop i c)\<close>
proof (induction c arbitrary: i)
  case Nil
  then show ?case by (simp split: if_splits)
next
  case (Cons x xs)
  show ?case
  proof (cases \<open>prefix p (x # xs)\<close>)
    case True
    with Cons.prems show ?thesis by simp
  next
    case False
    with Cons.prems obtain k where k: \<open>search p xs = Some k\<close> \<open>i = Suc k\<close>
      by auto
    with Cons.IH [of k] show ?thesis by simp
  qed
qed

lemma search_Some_least:
  \<open>search p c = Some i \<Longrightarrow> k < i \<Longrightarrow> \<not> prefix p (drop k c)\<close>
proof (induction c arbitrary: i k)
  case Nil
  then show ?case by (simp split: if_splits)
next
  case (Cons x xs)
  from Cons.prems have np: \<open>\<not> prefix p (x # xs)\<close>
    by (auto split: if_splits)
  with Cons.prems obtain i' where i': \<open>search p xs = Some i'\<close> \<open>i = Suc i'\<close>
    by auto
  show ?case
  proof (cases k)
    case 0
    with np show ?thesis by simp
  next
    case (Suc k')
    with Cons.prems i' have \<open>k' < i'\<close> by simp
    from Cons.IH [OF i'(1) this] Suc show ?thesis by simp
  qed
qed

lemma search_None_iff: \<open>search p c = None \<longleftrightarrow> \<not> sublist p c\<close>
proof (induction c)
  case Nil
  then show ?case by simp
next
  case (Cons x xs)
  then show ?case by (auto simp: sublist_Cons_right)
qed

lemma search_single:
  \<open>search [s] xs =
     (if s \<in> set xs then Some (length (takeWhile (\<lambda>u. u \<noteq> s) xs)) else None)\<close>
  by (induction xs) auto

lemma substring_take_drop:
  \<open>a \<le> b \<Longrightarrow> b \<le> length c \<Longrightarrow> substring c (int a) (int b) = take (b - a) (drop a c)\<close>
  by (simp add: substring_def Let_def min_def max_def nat_diff_distrib')

lemma indexOf_0: \<open>indexOf c p 0 = (case search p c of None \<Rightarrow> - 1 | Some k \<Rightarrow> int k)\<close>
  by (simp add: indexOf_def split: option.splits)

lemma indexOf_nat:
  \<open>k \<le> length c \<Longrightarrow>
   indexOf c p (int k) = (case search p (drop k c) of None \<Rightarrow> - 1 | Some m \<Rightarrow> int (k + m))\<close>
  by (simp add: indexOf_def min_def max_def split: option.splits)

lemma takeWhile_stop:
  \<open>s \<notin> set xs \<Longrightarrow> takeWhile (\<lambda>u. u \<noteq> s) (xs @ ys) = xs @ takeWhile (\<lambda>u. u \<noteq> s) ys\<close>
  by (induction xs) auto

lemma take_length_takeWhile: \<open>take (length (takeWhile P xs)) xs = takeWhile P xs\<close>
  by (induction xs) auto

lemma drop_exact: \<open>length xs = k \<Longrightarrow> drop k (xs @ ys) = ys\<close>
  by simp

text \<open>
  The core of the lookup: when the name holds no \<open>;\<close>, the first \<open>;\<close> after the
  match position lies after the whole pattern, and the routine returns the text between
  the pattern and that \<open>;\<close> (or the end of the buffer).
\<close>

lemma script_f_found:
  assumes found: \<open>search (js ''; '' @ n @ js ''='') c = Some i\<close>
    and n: \<open>semicolon \<notin> set n\<close>
  shows \<open>script_f c n d =
           takeWhile (\<lambda>u. u \<noteq> semicolon) (drop (i + (length n + 3)) c)\<close>
proof -
  let ?p = \<open>js ''; '' @ n @ js ''=''\<close>
  from search_Some_prefix [OF found] obtain post
    where i: \<open>i \<le> length c\<close> and split: \<open>drop i c = ?p @ post\<close>
    by (auto simp: prefix_def)
  have len: \<open>length c = i + (length n + 3) + length post\<close>
  proof -
    have \<open>length (drop i c) = length n + 3 + length post\<close>
      by (simp add: split)
    with i show ?thesis by simp
  qed
  have rest: \<open>drop (i + (length n + 3)) c = post\<close>
  proof -
    have \<open>drop (i + (length n + 3)) c = drop (length n + 3) (drop i c)\<close>
      by (simp add: add.commute)
    also have \<open>\<dots> = drop (length n + 3) (?p @ post)\<close>
      by (simp only: split)
    also have \<open>\<dots> = post\<close>
      by (rule drop_exact) simp
    finally show ?thesis .
  qed
  have after: \<open>drop (i + 1) c = (space # n @ [equals_sign]) @ post\<close>
  proof -
    have \<open>drop (i + 1) c = drop 1 (drop i c)\<close>
      by (simp add: add.commute)
    then show ?thesis by (simp add: split)
  qed
  have clean: \<open>semicolon \<notin> set (space # n @ [equals_sign])\<close>
    using n by simp
  have tw: \<open>takeWhile (\<lambda>u. u \<noteq> semicolon) (drop (i + 1) c) =
            (space # n @ [equals_sign]) @ takeWhile (\<lambda>u. u \<noteq> semicolon) post\<close>
    unfolding after by (rule takeWhile_stop [OF clean])
  have mem: \<open>semicolon \<in> set (drop (i + 1) c) \<longleftrightarrow> semicolon \<in> set post\<close>
    unfolding after using n by simp
  have i1: \<open>i + 1 \<le> length c\<close>
    using len by simp
  have j: \<open>indexOf c (js '';'') (int i + 1) =
            (if semicolon \<in> set post
             then int (i + (length n + 3) + length (takeWhile (\<lambda>u. u \<noteq> semicolon) post))
             else - 1)\<close>
  proof -
    have \<open>indexOf c (js '';'') (int i + 1) = indexOf c [semicolon] (int (i + 1))\<close>
      by (simp add: add.commute)
    also have \<open>\<dots> = (case search [semicolon] (drop (i + 1) c) of
                         None \<Rightarrow> - 1 | Some m \<Rightarrow> int (i + 1 + m))\<close>
      by (rule indexOf_nat [OF i1])
    also have \<open>\<dots> = (if semicolon \<in> set post
             then int (i + (length n + 3) + length (takeWhile (\<lambda>u. u \<noteq> semicolon) post))
             else - 1)\<close>
      unfolding search_single tw mem by simp
    finally show ?thesis .
  qed
  have i0: \<open>indexOf c ?p 0 = int i\<close>
    unfolding indexOf_0 found by simp
  have plen: \<open>int i + int (length ?p) = int (i + (length n + 3))\<close>
    by simp
  show ?thesis
  proof (cases \<open>semicolon \<in> set post\<close>)
    case True
    let ?t = \<open>length (takeWhile (\<lambda>u. u \<noteq> semicolon) post)\<close>
    have t: \<open>?t \<le> length post\<close>
      by (rule length_takeWhile_le)
    have \<open>script_f c n d =
            substring c (int (i + (length n + 3))) (int (i + (length n + 3) + ?t))\<close>
      unfolding script_f_def Let_def i0 j plen using True by simp
    also have \<open>\<dots> = take ?t (drop (i + (length n + 3)) c)\<close>
      using t len by (subst substring_take_drop) simp_all
    also have \<open>\<dots> = takeWhile (\<lambda>u. u \<noteq> semicolon) post\<close>
      unfolding rest by (rule take_length_takeWhile)
    finally show ?thesis by (simp add: rest)
  next
    case False
    have all: \<open>takeWhile (\<lambda>u. u \<noteq> semicolon) post = post\<close>
      using False by (auto simp: takeWhile_eq_all_conv)
    have \<open>script_f c n d =
            substring c (int (i + (length n + 3))) (int (length c))\<close>
      unfolding script_f_def Let_def i0 j plen using False by simp
    also have \<open>\<dots> = take (length c - (i + (length n + 3))) (drop (i + (length n + 3)) c)\<close>
      using len by (subst substring_take_drop) simp_all
    also have \<open>\<dots> = post\<close>
      unfolding rest using len by simp
    finally show ?thesis by (simp add: rest all)
  qed
qed

lemma script_f_absent:
  \<open>search (js ''; '' @ n @ js ''='') c = None \<Longrightarrow> script_f c n d = d\<close>
  unfolding script_f_def Let_def indexOf_0 by simp

lemma search_le_occurrence:
  assumes \<open>search p c = Some i\<close> and \<open>c = pre @ p @ post\<close>
  shows \<open>i \<le> length pre\<close>
proof (rule ccontr)
  assume \<open>\<not> i \<le> length pre\<close>
  then have \<open>length pre < i\<close> by simp
  from search_Some_least [OF assms(1) this] show False
    by (simp add: assms(2))
qed

lemma search_first_occurrence:
  assumes c: \<open>c = pre @ p @ post\<close>
    and least: \<open>\<forall>pre' post'. c = pre' @ p @ post' \<longrightarrow> length pre \<le> length pre'\<close>
  shows \<open>search p c = Some (length pre)\<close>
proof -
  have \<open>sublist p c\<close>
    unfolding sublist_def using c by blast
  then obtain i where i: \<open>search p c = Some i\<close>
    using search_None_iff [of p c] by (cases \<open>search p c\<close>) auto
  from search_Some_prefix [OF i] obtain post' where le: \<open>i \<le> length c\<close>
    and d: \<open>drop i c = p @ post'\<close>
    by (auto simp: prefix_def)
  have \<open>c = take i c @ p @ post'\<close>
    using append_take_drop_id [of i c] by (simp only: d)
  with least have \<open>length pre \<le> length (take i c)\<close>
    by blast
  with le have \<open>length pre \<le> i\<close>
    by simp
  moreover from search_le_occurrence [OF i c] have \<open>i \<le> length pre\<close> .
  ultimately show ?thesis
    using i by simp
qed

lemma script_f_first:
  assumes \<open>semicolon \<notin> set n\<close>
  shows \<open>script_f c n d =
           (case search (js ''; '' @ n @ js ''='') c of
              None \<Rightarrow> d
            | Some i \<Rightarrow> takeWhile (\<lambda>u. u \<noteq> semicolon) (drop (i + (length n + 3)) c))\<close>
proof (cases \<open>search (js ''; '' @ n @ js ''='') c\<close>)
  case None
  then show ?thesis by (simp only: script_f_absent option.case)
next
  case (Some i)
  from script_f_found [OF Some assms] Some show ?thesis by (simp only: option.case)
qed

lemma search_skip:
  \<open>x \<notin> set xs \<Longrightarrow>
   search (x # p) (xs @ ys) = map_option (\<lambda>i. length xs + i) (search (x # p) ys)\<close>
proof (induction xs)
  case Nil
  show ?case by (cases \<open>search (x # p) ys\<close>) simp_all
next
  case (Cons y xs)
  then show ?case by (simp add: option.map_comp comp_def)
qed

lemma drop_skip: \<open>drop (Suc (length X + i) + m) (x # X @ R) = drop (i + m) R\<close>
  by simp

lemma script_f_skip:
  assumes n: \<open>semicolon \<notin> set n\<close>
    and X: \<open>semicolon \<notin> set X\<close>
    and np: \<open>\<not> prefix (js ''; '' @ n @ js ''='') (semicolon # X @ R)\<close>
  shows \<open>script_f (semicolon # X @ R) n d = script_f R n d\<close>
proof -
  let ?p = \<open>js ''; '' @ n @ js ''=''\<close>
  have p: \<open>?p = semicolon # space # n @ [equals_sign]\<close>
    by simp
  have \<open>search ?p (semicolon # X @ R) = map_option Suc (search ?p (X @ R))\<close>
    using np by simp
  also have \<open>search ?p (X @ R) = map_option (\<lambda>i. length X + i) (search ?p R)\<close>
    unfolding p by (rule search_skip [OF X])
  finally have s: \<open>search ?p (semicolon # X @ R) =
      map_option (\<lambda>i. Suc (length X + i)) (search ?p R)\<close>
    by (simp add: option.map_comp comp_def)
  show ?thesis
  proof (cases \<open>search ?p R\<close>)
    case None
    show ?thesis
      unfolding script_f_first [OF n] s None by simp
  next
    case (Some a)
    have d: \<open>drop (Suc (length X + a) + (length n + 3)) (semicolon # X @ R) =
             drop (a + (length n + 3)) R\<close>
      by (rule drop_skip)
    show ?thesis
      unfolding script_f_first [OF n] s Some by (simp only: option.map option.case d)
  qed
qed

lemma takeWhile_until: \<open>e \<notin> set k \<Longrightarrow> takeWhile (\<lambda>u. u \<noteq> e) (k @ e # rest) = k\<close>
  by (induction k) auto

lemma prefix_name:
  assumes \<open>e \<notin> set n\<close> \<open>e \<notin> set k\<close>
  shows \<open>prefix (n @ [e]) (k @ e # rest) \<longleftrightarrow> n = k\<close>
proof
  assume \<open>prefix (n @ [e]) (k @ e # rest)\<close>
  then obtain zs where \<open>k @ e # rest = n @ e # zs\<close>
    by (auto simp: prefix_def)
  then have \<open>takeWhile (\<lambda>u. u \<noteq> e) (k @ e # rest) = takeWhile (\<lambda>u. u \<noteq> e) (n @ e # zs)\<close>
    by simp
  with assms show \<open>n = k\<close>
    by (simp add: takeWhile_until)
next
  assume \<open>n = k\<close>
  then show \<open>prefix (n @ [e]) (k @ e # rest)\<close>
    by (simp add: prefix_def)
qed

lemma document_cookie_Cons:
  \<open>normalized (document_cookie ((k, v) # entries)) =
     semicolon # (space # k @ equals_sign # v) @
       (if entries = [] then [] else normalized (document_cookie entries))\<close>
  by (cases entries) (simp_all add: document_cookie_def normalized_def)

lemma normalized_head:
  \<open>takeWhile (\<lambda>u. u \<noteq> semicolon) (normalized b) = []\<close>
  by (simp add: normalized_def)

text \<open>
  On the buffer of a well-formed jar the routine is a lookup by exact name: it returns
  the value stored under \<open>n\<close>, and the default when no cookie is named \<open>n\<close>.
\<close>

lemma script_f_jar:
  assumes n: \<open>semicolon \<notin> set n\<close> \<open>equals_sign \<notin> set n\<close>
    and wf: \<open>well_formed_jar entries\<close>
  shows \<open>script_f (normalized (document_cookie entries)) n d =
           (case map_of entries n of None \<Rightarrow> d | Some v \<Rightarrow> v)\<close>
  using wf
proof (induction entries)
  case Nil
  have \<open>search (js ''; '' @ n @ js ''='') (normalized (document_cookie [])) = None\<close>
    by (simp add: document_cookie_def normalized_def)
  from script_f_absent [OF this] show ?case by simp
next
  case (Cons kv entries)
  obtain k v where kv: \<open>kv = (k, v)\<close> by (cases kv)
  from Cons.prems kv have k: \<open>semicolon \<notin> set k\<close> \<open>equals_sign \<notin> set k\<close>
    and v: \<open>semicolon \<notin> set v\<close> and wf': \<open>well_formed_jar entries\<close>
    by (simp_all add: well_formed_jar_def)
  let ?R = \<open>if entries = [] then [] else normalized (document_cookie entries)\<close>
  let ?c = \<open>semicolon # (space # k @ equals_sign # v) @ ?R\<close>
  have c: \<open>normalized (document_cookie ((k, v) # entries)) = ?c\<close>
    by (rule document_cookie_Cons)
  have R: \<open>takeWhile (\<lambda>u. u \<noteq> semicolon) ?R = []\<close>
    by (simp add: normalized_head)
  have pre: \<open>prefix (js ''; '' @ n @ js ''='') ?c \<longleftrightarrow> n = k\<close>
    using prefix_name [OF n(2) k(2), of \<open>v @ ?R\<close>] by simp
  show ?case
  proof (cases \<open>n = k\<close>)
    case True
    with pre have \<open>search (js ''; '' @ n @ js ''='') ?c = Some 0\<close>
      by simp
    from script_f_found [OF this n(1)]
    have \<open>script_f ?c n d = takeWhile (\<lambda>u. u \<noteq> semicolon) (drop (length n + 3) ?c)\<close>
      by simp
    also have \<open>drop (length n + 3) ?c = v @ ?R\<close>
    proof -
      have \<open>?c = (semicolon # space # k @ [equals_sign]) @ (v @ ?R)\<close>
        by simp
      moreover have \<open>drop (length n + 3) ((semicolon # space # k @ [equals_sign]) @ (v @ ?R)) = v @ ?R\<close>
        by (rule drop_exact) (simp add: True)
      ultimately show ?thesis by (simp only:)
    qed
    also have \<open>takeWhile (\<lambda>u. u \<noteq> semicolon) (v @ ?R) = v\<close>
      unfolding takeWhile_stop [OF v] R by simp
    finally show ?thesis
      unfolding kv c using True by simp
  next
    case False
    with pre have np: \<open>\<not> prefix (js ''; '' @ n @ js ''='') ?c\<close>
      by simp
    have X: \<open>semicolon \<notin> set (space # k @ equals_sign # v)\<close>
      using k v by simp
    have skip: \<open>script_f ?c n d = script_f ?R n d\<close>
      by (rule script_f_skip [OF n(1) X np])
    show ?thesis
    proof (cases \<open>entries = []\<close>)
      case True
      have \<open>search (js ''; '' @ n @ js ''='') [] = None\<close>
        by simp
      from script_f_absent [OF this] have \<open>script_f [] n d = d\<close> .
      with skip True False show ?thesis
        unfolding kv c by simp
    next
      case nonempty: False
      with skip Cons.IH [OF wf'] False show ?thesis
        unfolding kv c by simp
    qed
  qed
qed

section \<open>The lookup routine: boundary matching and defaults\<close>

text \<open>
  C1, as the code has it. For every buffer, every default and every queried name \<open>n\<close>
  that holds no \<open>;\<close>: when \<open>"; " + n + "="\<close> occurs in the normalized buffer, the routine
  returns the text between the end of its first occurrence and the next \<open>;\<close> (or the end
  of the buffer), unchanged; when it does not occur, the routine returns the default. So
  a match needs the name to start right after a \<open>"; "\<close> (or at the start of the store
  string) and to be followed at once by \<open>=\<close>. On the buffer of a well-formed cookie jar
  the routine therefore returns the value of the cookie named exactly \<open>n\<close>, and the
  default when there is none, whatever longer names contain \<open>n\<close>.
\<close>

theorem find_boundary_matching:
  assumes \<open>semicolon \<notin> set n\<close>
  shows \<open>(\<forall>pre post.
            normalized b = pre @ js ''; '' @ n @ js ''='' @ post \<and>
            (\<forall>pre' post'. normalized b = pre' @ js ''; '' @ n @ js ''='' @ post'
               \<longrightarrow> length pre \<le> length pre')
            \<longrightarrow> script_f (normalized b) n d = takeWhile (\<lambda>u. u \<noteq> semicolon) post) \<and>
         (\<not> sublist (js ''; '' @ n @ js ''='') (normalized b)
            \<longrightarrow> script_f (normalized b) n d = d) \<and>
         (equals_sign \<notin> set n \<and> well_formed_jar entries
            \<longrightarrow> script_f (normalized (document_cookie entries)) n d =
                  (case map_of entries n of None \<Rightarrow> d | Some v \<Rightarrow> v))\<close>
proof (intro conjI allI impI)
  fix pre post
  assume h: \<open>normalized b = pre @ js ''; '' @ n @ js ''='' @ post \<and>
    (\<forall>pre' post'. normalized b = pre' @ js ''; '' @ n @ js ''='' @ post'
       \<longrightarrow> length pre \<le> length pre')\<close>
  let ?p = \<open>js ''; '' @ n @ js ''=''\<close>
  from h have c: \<open>normalized b = pre @ ?p @ post\<close>
    by simp
  from h have least:
    \<open>\<forall>pre' post'. normalized b = pre' @ ?p @ post' \<longrightarrow> length pre \<le> length pre'\<close>
    by simp
  have found: \<open>search ?p (normalized b) = Some (length pre)\<close>
    by (rule search_first_occurrence [OF c least])
  have \<open>drop (length pre + (length n + 3)) (normalized b) = post\<close>
  proof -
    have \<open>normalized b = (pre @ ?p) @ post\<close>
      using c by simp
    moreover have \<open>drop (length pre + (length n + 3)) ((pre @ ?p) @ post) = post\<close>
      by (rule drop_exact) simp
    ultimately show ?thesis by (simp only:)
  qed
  with script_f_found [OF found assms]
  show \<open>script_f (normalized b) n d = takeWhile (\<lambda>u. u \<noteq> semicolon) post\<close>
    by (simp only:)
next
  assume \<open>\<not> sublist (js ''; '' @ n @ js ''='') (normalized b)\<close>
  then have \<open>search (js ''; '' @ n @ js ''='') (normalized b) = None\<close>
    by (simp add: search_None_iff)
  then show \<open>script_f (normalized b) n d = d\<close>
    by (rule script_f_absent)
next
  assume \<open>equals_sign \<notin> set n \<and> well_formed_jar entries\<close>
  then show \<open>script_f (normalized (document_cookie entries)) n d =
      (case map_of entries n of None \<Rightarrow> d | Some v \<Rightarrow> v)\<close>
    using script_f_jar [OF assms] by blast
qed

theorem find_boundary_matching_witness:
  \<open>semicolon \<notin> set (js ''sw'') \<and> equals_sign \<notin> set (js ''sw'') \<and>
   script_f (normalized (js ''x-sw=999; sw=300'')) (js ''sw'') (js ''280'') = js ''300'' \<and>
   script_f (normalized (js ''xsw=999'')) (js ''sw'') (js ''280'') = js ''280'' \<and>
   script_f (normalized (js ''my-sw=999; other=1'')) (js ''sw'') (js ''280'') = js ''280'' \<and>
   well_formed_jar [(js ''x-sw'', js ''999''), (js ''sw'', js ''300'')] \<and>
   document_cookie [(js ''x-sw'', js ''999''), (js ''sw'', js ''300'')] = js ''x-sw=999; sw=300'' \<and>
   script_f (normalized (document_cookie [(js ''x-sw'', js ''999''), (js ''sw'', js ''300'')]))
     (js ''sw'') (js ''280'') = js ''300''\<close>
proof -
  let ?p = \<open>js ''; '' @ js ''sw'' @ js ''=''\<close>
  let ?jar = \<open>[(js ''x-sw'', js ''999''), (js ''sw'', js ''300'')]\<close>
  have n: \<open>semicolon \<notin> set (js ''sw'')\<close> and e: \<open>equals_sign \<notin> set (js ''sw'')\<close>
    by simp_all
  have found: \<open>search ?p (normalized (js ''x-sw=999; sw=300'')) = Some (length (js ''; x-sw=999''))\<close>
    by (simp add: normalized_def)
  have c: \<open>normalized (js ''x-sw=999; sw=300'') =
      js ''; x-sw=999'' @ js ''; '' @ js ''sw'' @ js ''='' @ js ''300''\<close>
    by (simp add: normalized_def)
  have least: \<open>\<forall>pre' post'.
      normalized (js ''x-sw=999; sw=300'') = pre' @ js ''; '' @ js ''sw'' @ js ''='' @ post'
      \<longrightarrow> length (js ''; x-sw=999'') \<le> length pre'\<close>
  proof (intro allI impI)
    fix pre' post'
    assume \<open>normalized (js ''x-sw=999; sw=300'') = pre' @ js ''; '' @ js ''sw'' @ js ''='' @ post'\<close>
    then have \<open>normalized (js ''x-sw=999; sw=300'') = pre' @ ?p @ post'\<close>
      by simp
    from search_le_occurrence [OF found this]
    show \<open>length (js ''; x-sw=999'') \<le> length pre'\<close> .
  qed
  have absent1: \<open>\<not> sublist ?p (normalized (js ''xsw=999''))\<close>
    unfolding search_None_iff [symmetric] by (simp add: normalized_def)
  have absent2: \<open>\<not> sublist ?p (normalized (js ''my-sw=999; other=1''))\<close>
    unfolding search_None_iff [symmetric] by (simp add: normalized_def)
  have wf: \<open>well_formed_jar ?jar\<close>
    by (simp add: well_formed_jar_def)
  have buffer: \<open>document_cookie ?jar = js ''x-sw=999; sw=300''\<close>
    by (simp add: document_cookie_def)
  have \<open>script_f (normalized (js ''x-sw=999; sw=300'')) (js ''sw'') (js ''280'') =
        takeWhile (\<lambda>u. u \<noteq> semicolon) (js ''300'')\<close>
    using find_boundary_matching [OF n, of \<open>js ''x-sw=999; sw=300''\<close> \<open>js ''280''\<close> ?jar] c least
    by blast
  then have r1: \<open>script_f (normalized (js ''x-sw=999; sw=300'')) (js ''sw'') (js ''280'') = js ''300''\<close>
    by simp
  have r2: \<open>script_f (normalized (js ''xsw=999'')) (js ''sw'') (js ''280'') = js ''280''\<close>
    using find_boundary_matching [OF n, of \<open>js ''xsw=999''\<close> \<open>js ''280''\<close> ?jar] absent1
    by blast
  have r3: \<open>script_f (normalized (js ''my-sw=999; other=1'')) (js ''sw'') (js ''280'') = js ''280''\<close>
    using find_boundary_matching [OF n, of \<open>js ''my-sw=999; other=1''\<close> \<open>js ''280''\<close> ?jar] absent2
    by blast
  have \<open>script_f (normalized (document_cookie ?jar)) (js ''sw'') (js ''280'') =
        (case map_of ?jar (js ''sw'') of None \<Rightarrow> js ''280'' | Some v \<Rightarrow> v)\<close>
    using find_boundary_matching [OF n, of \<open>js ''x-sw=999; sw=300''\<close> \<open>js ''280''\<close> ?jar] e wf
    by blast
  then have r4: \<open>script_f (normalized (document_cookie ?jar)) (js ''sw'') (js ''280'') = js ''300''\<close>
    by simp
  from n e r1 r2 r3 wf buffer r4 show ?thesis
    by (intro conjI)
qed

text \<open>
  C1 as stated, for every queried name, fails for a name that holds \<open>;\<close>: the routine
  looks for the closing \<open>;\<close> from the position after the start of the match, not from
  its end. In the store string \<open>a;b=5\<close> the text \<open>"; a;b="\<close> is followed by \<open>5\<close>, and the
  routine returns \<open>;b=\<close>.
\<close>

theorem find_semicolon_name_counterexample:
  \<open>normalized (js ''a;b=5'') = js ''; '' @ js ''a;b'' @ js ''='' @ js ''5'' \<and>
   script_f (normalized (js ''a;b=5'')) (js ''a;b'') (js ''280'') = js '';b='' \<and>
   js '';b='' \<noteq> js ''5''\<close>
  by (simp add: normalized_def script_f_def indexOf_def substring_def)

lemma f_call_string: \<open>f_call (Str c) n d = Inr (script_f c n d)\<close>
  by (simp add: f_call_def script_f_def call_indexOf_def call_substring_def get_length_def Let_def)

lemma f_call_undefined: \<open>f_call Undefined n d = Inl TypeError\<close>
  by (simp add: f_call_def call_indexOf_def)

text \<open>
  C8, as the code has it. Called as the script calls it, with \<open>c\<close> the normalized
  buffer, the routine throws for no buffer, no query and no default: every call returns
  a string. With the empty store string, and with any buffer in which \<open>"; " + n + "="\<close>
  does not occur, it returns exactly the default. For a query \<open>n\<close> that holds no \<open>;\<close>, when
  no \<open>;\<close> follows the first match the value runs to the end of the buffer.
\<close>

theorem lookup_default_and_end_of_buffer:
  \<open>f_call (Str (normalized b)) n d = Inr (script_f (normalized b) n d) \<and>
   script_f (normalized []) n d = d \<and>
   (\<not> sublist (js ''; '' @ n @ js ''='') (normalized b)
      \<longrightarrow> script_f (normalized b) n d = d) \<and>
   (\<forall>pre post.
      normalized b = pre @ js ''; '' @ n @ js ''='' @ post \<and>
      (\<forall>pre' post'. normalized b = pre' @ js ''; '' @ n @ js ''='' @ post'
         \<longrightarrow> length pre \<le> length pre') \<and>
      semicolon \<notin> set n \<and> semicolon \<notin> set post
      \<longrightarrow> script_f (normalized b) n d = post)\<close>
proof (intro conjI allI impI)
  show \<open>f_call (Str (normalized b)) n d = Inr (script_f (normalized b) n d)\<close>
    by (rule f_call_string)
next
  have \<open>search (js ''; '' @ n @ js ''='') (normalized []) = None\<close>
    by (simp add: normalized_def)
  then show \<open>script_f (normalized []) n d = d\<close>
    by (rule script_f_absent)
next
  assume \<open>\<not> sublist (js ''; '' @ n @ js ''='') (normalized b)\<close>
  then have \<open>search (js ''; '' @ n @ js ''='') (normalized b) = None\<close>
    by (simp add: search_None_iff)
  then show \<open>script_f (normalized b) n d = d\<close>
    by (rule script_f_absent)
next
  fix pre post
  assume h: \<open>normalized b = pre @ js ''; '' @ n @ js ''='' @ post \<and>
    (\<forall>pre' post'. normalized b = pre' @ js ''; '' @ n @ js ''='' @ post'
       \<longrightarrow> length pre \<le> length pre') \<and>
    semicolon \<notin> set n \<and> semicolon \<notin> set post\<close>
  let ?p = \<open>js ''; '' @ n @ js ''=''\<close>
  from h have c: \<open>normalized b = pre @ ?p @ post\<close>
    by simp
  from h have least:
    \<open>\<forall>pre' post'. normalized b = pre' @ ?p @ post' \<longrightarrow> length pre \<le> length pre'\<close>
    by simp
  from h have n: \<open>semicolon \<notin> set n\<close> and post: \<open>semicolon \<notin> set post\<close>
    by simp_all
  have found: \<open>search ?p (normalized b) = Some (length pre)\<close>
    by (rule search_first_occurrence [OF c least])
  have rest: \<open>drop (length pre + (length n + 3)) (normalized b) = post\<close>
  proof -
    have \<open>normalized b = (pre @ ?p) @ post\<close>
      using c by simp
    moreover have \<open>drop (length pre + (length n + 3)) ((pre @ ?p) @ post) = post\<close>
      by (rule drop_exact) simp
    ultimately show ?thesis by (simp only:)
  qed
  have \<open>takeWhile (\<lambda>u. u \<noteq> semicolon) post = post\<close>
    using post by (auto simp: takeWhile_eq_all_conv)
  with script_f_found [OF found n] rest
  show \<open>script_f (normalized b) n d = post\<close>
    by (simp only:)
qed

theorem lookup_default_and_end_of_buffer_witness:
  \<open>f_call (Str (normalized (js ''a=1; sw=400''))) (js ''sw'') (js ''280'') = Inr (js ''400'') \<and>
   script_f (normalized (js [])) (js ''sw'') (js ''280'') = js ''280'' \<and>
   script_f (normalized (js ''a=1; b=2'')) (js ''sw'') (js ''280'') = js ''280'' \<and>
   script_f (normalized (js ''a=1; sw=400'')) (js ''sw'') (js ''280'') = js ''400'' \<and>
   script_f (normalized (js ''sw=400'')) (js ''sw'') (js ''280'') = js ''400''\<close>
proof -
  let ?p = \<open>js ''; '' @ js ''sw'' @ js ''=''\<close>
  note T = lookup_default_and_end_of_buffer [of _ \<open>js ''sw''\<close> \<open>js ''280''\<close>]
  have r1: \<open>script_f (normalized (js [])) (js ''sw'') (js ''280'') = js ''280''\<close>
    using T [of \<open>[]\<close>] by simp
  have absent: \<open>\<not> sublist ?p (normalized (js ''a=1; b=2''))\<close>
    unfolding search_None_iff [symmetric] by (simp add: normalized_def)
  have r2: \<open>script_f (normalized (js ''a=1; b=2'')) (js ''sw'') (js ''280'') = js ''280''\<close>
    using T [of \<open>js ''a=1; b=2''\<close>] absent by blast
  have found: \<open>search ?p (normalized (js ''a=1; sw=400'')) = Some (length (js ''; a=1''))\<close>
    by (simp add: normalized_def)
  have c: \<open>normalized (js ''a=1; sw=400'') =
      js ''; a=1'' @ js ''; '' @ js ''sw'' @ js ''='' @ js ''400''\<close>
    by (simp add: normalized_def)
  have least: \<open>\<forall>pre' post'.
      normalized (js ''a=1; sw=400'') = pre' @ js ''; '' @ js ''sw'' @ js ''='' @ post'
      \<longrightarrow> length (js ''; a=1'') \<le> length pre'\<close>
  proof (intro allI impI)
    fix pre' post'
    assume \<open>normalized (js ''a=1; sw=400'') = pre' @ js ''; '' @ js ''sw'' @ js ''='' @ post'\<close>
    then have \<open>normalized (js ''a=1; sw=400'') = pre' @ ?p @ post'\<close>
      by simp
    from search_le_occurrence [OF found this]
    show \<open>length (js ''; a=1'') \<le> length pre'\<close> .
  qed
  have clean: \<open>semicolon \<notin> set (js ''sw'') \<and> semicolon \<notin> set (js ''400'')\<close>
    by simp
  have r3: \<open>script_f (normalized (js ''a=1; sw=400'')) (js ''sw'') (js ''280'') = js ''400''\<close>
    using T [of \<open>js ''a=1; sw=400''\<close>] c least clean by blast
  have c0: \<open>normalized (js ''sw=400'') = [] @ js ''; '' @ js ''sw'' @ js ''='' @ js ''400''\<close>
    by (simp add: normalized_def)
  have least0: \<open>\<forall>pre' post'.
      normalized (js ''sw=400'') = pre' @ js ''; '' @ js ''sw'' @ js ''='' @ post'
      \<longrightarrow> length ([] :: jsstring) \<le> length pre'\<close>
    by simp
  have r4: \<open>script_f (normalized (js ''sw=400'')) (js ''sw'') (js ''280'') = js ''400''\<close>
    using T [of \<open>js ''sw=400''\<close>] c0 least0 clean by blast
  have \<open>f_call (Str (normalized (js ''a=1; sw=400''))) (js ''sw'') (js ''280'') =
      Inr (script_f (normalized (js ''a=1; sw=400'')) (js ''sw'') (js ''280''))\<close>
    using T [of \<open>js ''a=1; sw=400''\<close>] by blast
  with r3 have r0: \<open>f_call (Str (normalized (js ''a=1; sw=400''))) (js ''sw'') (js ''280'') =
      Inr (js ''400'')\<close>
    by simp
  from r0 r1 r2 r3 r4 show ?thesis
    by (intro conjI)
qed

text \<open>
  C8 as stated, for any query, fails in its last part for a query that holds \<open>;\<close>. In the
  store string \<open>x=2; k;v=1\<close> the entry \<open>k;v=1\<close> is the last one and nothing follows its
  value \<open>1\<close>; for the query \<open>k;v\<close> the routine returns \<open>;v=\<close>, which is neither the rest
  of the buffer nor the default.
\<close>

theorem end_of_buffer_counterexample:
  \<open>normalized (js ''x=2; k;v=1'') = js ''; x=2'' @ js ''; '' @ js ''k;v'' @ js ''='' @ js ''1'' \<and>
   semicolon \<notin> set (js ''1'') \<and>
   script_f (normalized (js ''x=2; k;v=1'')) (js ''k;v'') (js ''280'') = js '';v='' \<and>
   js '';v='' \<noteq> js ''1'' \<and> js '';v='' \<noteq> js ''280''\<close>
  by (simp add: normalized_def script_f_def indexOf_def substring_def)

section \<open>The text of the generated script\<close>

lemma prefix_stop:
  \<open>q \<notin> set p \<Longrightarrow> prefix p (zs @ q # ys) \<longleftrightarrow> prefix p zs\<close>
  by (auto simp: prefix_append prefix_Cons)

lemma occurrences_split:
  \<open>q \<notin> set p \<Longrightarrow> p \<noteq> [] \<Longrightarrow>
   occurrences p (xs @ q # ys) = occurrences p xs + occurrences p ys\<close>
proof (induction xs)
  case Nil
  then show ?case by (auto simp: prefix_Cons)
next
  case (Cons x xs)
  from prefix_stop [OF Cons.prems(1), of \<open>x # xs\<close> ys]
  have \<open>prefix p (x # xs @ q # ys) \<longleftrightarrow> prefix p (x # xs)\<close> by simp
  with Cons show ?case by simp
qed

lemma occurrences_absent: \<open>\<not> sublist p xs \<Longrightarrow> occurrences p xs = 0\<close>
  by (induction xs) (auto simp: sublist_Cons_right)

lemma occurrences_join:
  \<open>q \<notin> set p \<Longrightarrow> p \<noteq> [] \<Longrightarrow>
   occurrences p (join [q] parts) = sum_list (map (occurrences p) parts)\<close>
  by (induction \<open>[q]\<close> parts rule: join.induct) (simp_all add: occurrences_split)

lemma setter_quotes:
  \<open>setter c =
     js ''s.setProperty('' @ 0x22 # (cssVar c @ 0x22 # (js '',f('' @ 0x22 # (cookie c @ 0x22 #
       (js '','' @ 0x22 # (defaultValue c @ 0x22 # js ''))'')))))\<close>
  by (simp add: setter_def)

lemma occurrences_setter:
  assumes \<open>0x22 \<notin> set p\<close> \<open>p \<noteq> []\<close>
  shows \<open>occurrences p (setter c) =
     occurrences p (js ''s.setProperty('') + (occurrences p (cssVar c) +
     (occurrences p (js '',f('') + (occurrences p (cookie c) +
     (occurrences p (js '','') + (occurrences p (defaultValue c) +
      occurrences p (js ''))''))))))\<close>
  unfolding setter_quotes by (simp only: occurrences_split [OF assms])

lemma script_parts:
  \<open>generatePrehydrateScript configs =
     js ''(function(){var c="; "+document.cookie,s=document.documentElement.style,f=function(n,d){var p="; "+n+"=",i=c.indexOf(p);if(i<0)return d;var j=c.indexOf(";",i+1);return c.substring(i+p.length,j<0?c.length:j)}''
     @ semicolon # (join [semicolon] (map setter configs) @ 0x7D # js ''())'')\<close>
  by (simp add: generatePrehydrateScript_def)

lemma occurrences_script:
  assumes \<open>semicolon \<notin> set p\<close> \<open>0x7D \<notin> set p\<close> \<open>p \<noteq> []\<close>
  shows \<open>occurrences p (generatePrehydrateScript configs) =
     occurrences p (js ''(function(){var c="; "+document.cookie,s=document.documentElement.style,f=function(n,d){var p="; "+n+"=",i=c.indexOf(p);if(i<0)return d;var j=c.indexOf(";",i+1);return c.substring(i+p.length,j<0?c.length:j)}'')
     + (sum_list (map (occurrences p) (map setter configs)) + occurrences p (js ''())''))\<close>
  unfolding script_parts
  by (simp only: occurrences_split [OF assms(1,3)] occurrences_split [OF assms(2,3)]
        occurrences_join [OF assms(1,3)])

lemma cookie_reads:
  assumes \<open>\<forall>c \<in> set configs.
     \<not> sublist (js ''document.cookie'') (cssVar c) \<and>
     \<not> sublist (js ''document.cookie'') (cookie c) \<and>
     \<not> sublist (js ''document.cookie'') (defaultValue c)\<close>
  shows \<open>occurrences (js ''document.cookie'') (generatePrehydrateScript configs) = 1\<close>
proof -
  let ?p = \<open>js ''document.cookie''\<close>
  have each: \<open>occurrences ?p (setter c) = 0\<close> if \<open>c \<in> set configs\<close> for c
  proof -
    have \<open>occurrences ?p (setter c) =
       occurrences ?p (js ''s.setProperty('') + (occurrences ?p (cssVar c) +
       (occurrences ?p (js '',f('') + (occurrences ?p (cookie c) +
       (occurrences ?p (js '','') + (occurrences ?p (defaultValue c) +
        occurrences ?p (js ''))''))))))\<close>
      by (rule occurrences_setter) simp_all
    then show ?thesis
      using assms that by (simp add: occurrences_absent)
  qed
  then have \<open>sum_list (map (occurrences ?p) (map setter configs)) = 0\<close>
    by (simp add: comp_def)
  moreover have \<open>occurrences ?p (generatePrehydrateScript configs) =
     occurrences ?p (js ''(function(){var c="; "+document.cookie,s=document.documentElement.style,f=function(n,d){var p="; "+n+"=",i=c.indexOf(p);if(i<0)return d;var j=c.indexOf(";",i+1);return c.substring(i+p.length,j<0?c.length:j)}'')
     + (sum_list (map (occurrences ?p) (map setter configs)) + occurrences ?p (js ''())''))\<close>
    by (rule occurrences_script) simp_all
  ultimately show ?thesis
    by simp
qed

lemma hook_sets:
  assumes \<open>\<forall>c \<in> set configs.
     \<not> sublist (js ''s.setProperty'') (cssVar c) \<and>
     \<not> sublist (js ''s.setProperty'') (cookie c) \<and>
     \<not> sublist (js ''s.setProperty'') (defaultValue c)\<close>
  shows \<open>occurrences (js ''s.setProperty'') (generatePrehydrateScript configs) = length configs\<close>
proof -
  let ?p = \<open>js ''s.setProperty''\<close>
  have each: \<open>occurrences ?p (setter c) = 1\<close> if \<open>c \<in> set configs\<close> for c
  proof -
    have \<open>occurrences ?p (setter c) =
       occurrences ?p (js ''s.setProperty('') + (occurrences ?p (cssVar c) +
       (occurrences ?p (js '',f('') + (occurrences ?p (cookie c) +
       (occurrences ?p (js '','') + (occurrences ?p (defaultValue c) +
        occurrences ?p (js ''))''))))))\<close>
      by (rule occurrences_setter) simp_all
    then show ?thesis
      using assms that by (simp add: occurrences_absent)
  qed
  then have \<open>map (occurrences ?p) (map setter configs) = map (\<lambda>c. 1) configs\<close>
    by simp
  then have \<open>sum_list (map (occurrences ?p) (map setter configs)) = length configs\<close>
    by (simp only: sum_list_triv) simp
  moreover have \<open>occurrences ?p (generatePrehydrateScript configs) =
     occurrences ?p (js ''(function(){var c="; "+document.cookie,s=document.documentElement.style,f=function(n,d){var p="; "+n+"=",i=c.indexOf(p);if(i<0)return d;var j=c.indexOf(";",i+1);return c.substring(i+p.length,j<0?c.length:j)}'')
     + (sum_list (map (occurrences ?p) (map setter configs)) + occurrences ?p (js ''())''))\<close>
    by (rule occurrences_script) simp_all
  ultimately show ?thesis
    by simp
qed

lemma join_snoc:
  \<open>parts \<noteq> [] \<Longrightarrow> join sep (parts @ [x]) = join sep parts @ sep @ x\<close>
  by (induction sep parts rule: join.induct) simp_all


lemma join_snoc_if:
  \<open>join sep (parts @ [x]) = (if parts = [] then x else join sep parts @ sep @ x)\<close>
  by (cases \<open>parts = []\<close>) (simp_all add: join_snoc)

text \<open>
  C6, as the code has it. For every list of configs the script is one fixed prelude
  (the buffer \<open>c\<close> and the routine \<open>f\<close>, once, whatever the number of configs), the
  setters joined by \<open>;\<close>, and the closing text; one more config adds its one setter,
  after a \<open>;\<close> when it is not the first. The fields of a config are spliced into the
  script unescaped, so the counts depend on them: for every list of \<open>N\<close> configs whose
  fields contain neither counted text, the script holds exactly one occurrence of
  \<^verbatim>\<open>document.cookie\<close> and exactly \<open>N\<close> of \<^verbatim>\<open>s.setProperty\<close>.
\<close>

theorem single_shared_read:
  \<open>generatePrehydrateScript configs =
     js ''(function(){var c="; "+document.cookie,s=document.documentElement.style,f=function(n,d){var p="; "+n+"=",i=c.indexOf(p);if(i<0)return d;var j=c.indexOf(";",i+1);return c.substring(i+p.length,j<0?c.length:j)};''
     @ join (js '';'') (map setter configs) @ js ''}())'' \<and>
   join (js '';'') (map setter (configs @ [c])) =
     (if configs = [] then setter c
      else join (js '';'') (map setter configs) @ js '';'' @ setter c) \<and>
   setter c =
     js ''s.setProperty("'' @ cssVar c @ js ''",f("'' @ cookie c @ js ''","''
       @ defaultValue c @ js ''"))'' \<and>
   ((\<forall>c \<in> set configs. \<forall>p \<in> {js ''document.cookie'', js ''s.setProperty''}.
       \<not> sublist p (cssVar c) \<and> \<not> sublist p (cookie c) \<and> \<not> sublist p (defaultValue c))
    \<longrightarrow> occurrences (js ''document.cookie'') (generatePrehydrateScript configs) = 1 \<and>
        occurrences (js ''s.setProperty'') (generatePrehydrateScript configs) = length configs)\<close>
proof (intro conjI impI)
  show \<open>generatePrehydrateScript configs =
           js ''(function(){var c="; "+document.cookie,s=document.documentElement.style,f=function(n,d){var p="; "+n+"=",i=c.indexOf(p);if(i<0)return d;var j=c.indexOf(";",i+1);return c.substring(i+p.length,j<0?c.length:j)};''
           @ join (js '';'') (map setter configs) @ js ''}())''\<close>
    by (simp add: generatePrehydrateScript_def)
  show \<open>join (js '';'') (map setter (configs @ [c])) =
     (if configs = [] then setter c
      else join (js '';'') (map setter configs) @ js '';'' @ setter c)\<close>
    using join_snoc_if [of \<open>js '';''\<close> \<open>map setter configs\<close> \<open>setter c\<close>] by simp
  show \<open>setter c =
     js ''s.setProperty("'' @ cssVar c @ js ''",f("'' @ cookie c @ js ''","''
       @ defaultValue c @ js ''"))''\<close>
    by (rule setter_def)
next
  assume clean: \<open>\<forall>c \<in> set configs. \<forall>p \<in> {js ''document.cookie'', js ''s.setProperty''}.
       \<not> sublist p (cssVar c) \<and> \<not> sublist p (cookie c) \<and> \<not> sublist p (defaultValue c)\<close>
  show \<open>occurrences (js ''document.cookie'') (generatePrehydrateScript configs) = 1\<close>
    by (rule cookie_reads) (use clean in blast)
  show \<open>occurrences (js ''s.setProperty'') (generatePrehydrateScript configs) = length configs\<close>
    by (rule hook_sets) (use clean in blast)
qed

theorem single_shared_read_witness:
  \<open>occurrences (js ''document.cookie'')
     (generatePrehydrateScript
        [\<lparr>cookie = js ''a'', cssVar = js ''--a'', defaultValue = js ''1''\<rparr>,
         \<lparr>cookie = js ''b'', cssVar = js ''--b'', defaultValue = js ''2''\<rparr>,
         \<lparr>cookie = js ''c'', cssVar = js ''--c'', defaultValue = js ''3''\<rparr>]) = 1 \<and>
   occurrences (js ''s.setProperty'')
     (generatePrehydrateScript
        [\<lparr>cookie = js ''a'', cssVar = js ''--a'', defaultValue = js ''1''\<rparr>,
         \<lparr>cookie = js ''b'', cssVar = js ''--b'', defaultValue = js ''2''\<rparr>,
         \<lparr>cookie = js ''c'', cssVar = js ''--c'', defaultValue = js ''3''\<rparr>]) = 3 \<and>
   join (js '';'')
     (map setter
        ([\<lparr>cookie = js ''a'', cssVar = js ''--a'', defaultValue = js ''1''\<rparr>,
          \<lparr>cookie = js ''b'', cssVar = js ''--b'', defaultValue = js ''2''\<rparr>] @
         [\<lparr>cookie = js ''c'', cssVar = js ''--c'', defaultValue = js ''3''\<rparr>])) =
   js ''s.setProperty("--a",f("a","1"));s.setProperty("--b",f("b","2"))'' @ js '';'' @
   js ''s.setProperty("--c",f("c","3"))''\<close>
proof -
  let ?a = \<open>\<lparr>cookie = js ''a'', cssVar = js ''--a'', defaultValue = js ''1''\<rparr>\<close>
  let ?b = \<open>\<lparr>cookie = js ''b'', cssVar = js ''--b'', defaultValue = js ''2''\<rparr>\<close>
  let ?c = \<open>\<lparr>cookie = js ''c'', cssVar = js ''--c'', defaultValue = js ''3''\<rparr>\<close>
  have clean3: \<open>\<forall>c \<in> set [?a, ?b, ?c]. \<forall>p \<in> {js ''document.cookie'', js ''s.setProperty''}.
     \<not> sublist p (cssVar c) \<and> \<not> sublist p (cookie c) \<and> \<not> sublist p (defaultValue c)\<close>
    by (simp add: sublist_Cons_right)
  from single_shared_read [of \<open>[?a, ?b, ?c]\<close> ?c] clean3
  have counts: \<open>occurrences (js ''document.cookie'') (generatePrehydrateScript [?a, ?b, ?c]) = 1 \<and>
     occurrences (js ''s.setProperty'') (generatePrehydrateScript [?a, ?b, ?c]) = length [?a, ?b, ?c]\<close>
    by blast
  from single_shared_read [of \<open>[?a, ?b]\<close> ?c]
  have \<open>join (js '';'') (map setter ([?a, ?b] @ [?c])) =
      (if [?a, ?b] = [] then setter ?c
       else join (js '';'') (map setter [?a, ?b]) @ js '';'' @ setter ?c)\<close>
    by blast
  then have \<open>join (js '';'') (map setter ([?a, ?b] @ [?c])) =
      join (js '';'') (map setter [?a, ?b]) @ js '';'' @ setter ?c\<close>
    by (simp only: list.distinct if_False)
  moreover have \<open>join (js '';'') (map setter [?a, ?b]) =
      js ''s.setProperty("--a",f("a","1"));s.setProperty("--b",f("b","2"))''\<close>
    by (simp add: setter_def)
  moreover have \<open>setter ?c = js ''s.setProperty("--c",f("c","3"))''\<close>
    by (simp add: setter_def)
  ultimately show ?thesis
    using counts by simp
qed

text \<open>
  C6 as stated, for every descriptor list, fails: a default value that holds a double
  quote leaves its string literal, and here adds a second read of \<^verbatim>\<open>document.cookie\<close>.
\<close>

theorem unescaped_field_counterexample:
  \<open>setter \<lparr>cookie = js ''a'', cssVar = js ''--a'', defaultValue = js ''"+document.cookie+"''\<rparr> =
     js ''s.setProperty("--a",f("a",""+document.cookie+""))'' \<and>
   occurrences (js ''document.cookie'')
     (generatePrehydrateScript
        [\<lparr>cookie = js ''a'', cssVar = js ''--a'', defaultValue = js ''"+document.cookie+"''\<rparr>]) = 2\<close>
  by (simp add: setter_def generatePrehydrateScript_def)

text \<open>
  C10. For the empty list the synthesizer returns the self-invoking function with the
  one read of \<^verbatim>\<open>document.cookie\<close>, the one definition of \<open>f\<close> and no call of
  \<^verbatim>\<open>s.setProperty\<close>; running it leaves every style property, and the document, as it was.
\<close>

theorem empty_descriptor_list:
  \<open>generatePrehydrateScript [] =
     js ''(function(){var c="; "+document.cookie,s=document.documentElement.style,f=function(n,d){var p="; "+n+"=",i=c.indexOf(p);if(i<0)return d;var j=c.indexOf(";",i+1);return c.substring(i+p.length,j<0?c.length:j)};}())'' \<and>
   occurrences (js ''document.cookie'') (generatePrehydrateScript []) = 1 \<and>
   occurrences (js ''f=function(n,d){'') (generatePrehydrateScript []) = 1 \<and>
   occurrences (js ''s.setProperty'') (generatePrehydrateScript []) = 0 \<and>
   run_script [] d = Some d\<close>
  by (simp add: generatePrehydrateScript_def run_script_def)

section \<open>The value cell: reads, mount transition and errors\<close>




text \<open>
  Under a \<open>Provider\<close>, mounted or not, the setter \<open>useHydratedValue\<close> returns is the
  provider's \<open>set\<close>, so calling it is calling \<open>set\<close>.
\<close>

lemma useHydratedValue_setter:
  \<open>map_sum id snd (useHydratedValue config (Provider_context config w) mounted) =
     Inr (Provider_set config)\<close>
  by (simp add: useHydratedValue_def useContext'_def Provider_context_def)











text \<open>
  C9. Outside a \<open>Provider\<close> the context is \<open>null\<close>, and either read throws at once an
  \<open>Error\<close> whose message ends with the config's cookie name in double quotes; no value is
  returned.
\<close>

theorem read_outside_provider:
  \<open>useValue config None =
     Inl (Error (js ''useValue/useHydratedValue must be used within a <Provider> for "''
            @ cookie config @ js ''"'')) \<and>
   useHydratedValue config None mounted =
     Inl (Error (js ''useValue/useHydratedValue must be used within a <Provider> for "''
            @ cookie config @ js ''"''))\<close>
  by (simp add: useValue_def useHydratedValue_def useContext'_def)

text \<open>
  C4. Under a \<open>Provider\<close>, \<open>readForPresentation\<close> returns the provider's current value, a
  string and never \<open>null\<close>. At the first render that value is \<open>defaultValue\<close> where there
  is no document; with a document it is the value of the style property \<open>cssVar\<close> when
  that is set and not empty, and \<open>defaultValue\<close> otherwise.
\<close>

theorem presentation_value:
  \<open>readForPresentation config w = Inr (valueState w) \<and>
   readForPresentation config (initial_world config d) =
     Inr (case d of
            None \<Rightarrow> defaultValue config
          | Some live \<Rightarrow>
              (case style live (cssVar config) of
                 None \<Rightarrow> defaultValue config
               | Some hook \<Rightarrow> if hook = [] then defaultValue config else hook))\<close>
  by (simp add: readForPresentation_def useValue_def useContext'_def Provider_context_def
      initial_world_def Provider_init_def getPropertyValue_def Let_def split: option.splits)

section \<open>Percent-encoding and the cookie jar\<close>

lemma hexDigit_unescaped: \<open>d < 16 \<Longrightarrow> uriUnescaped (hexDigit d)\<close>
proof -
  assume \<open>d < 16\<close>
  then have \<open>d \<in> set [0..<16]\<close> by simp
  then show ?thesis
    unfolding hexDigit_def uriUnescaped_def
    by (simp add: upt_rec) (elim disjE; simp)
qed

lemma percent_chars:
  \<open>octet < 256 \<Longrightarrow> u \<in> set (percent octet) \<Longrightarrow> uriUnescaped u \<or> u = 0x25\<close>
proof -
  assume o: \<open>octet < 256\<close> and u: \<open>u \<in> set (percent octet)\<close>
  from o have \<open>octet div 16 < 16\<close> \<open>octet mod 16 < 16\<close> by simp_all
  then have \<open>uriUnescaped (hexDigit (octet div 16))\<close> \<open>uriUnescaped (hexDigit (octet mod 16))\<close>
    by (simp_all only: hexDigit_unescaped)
  with u show ?thesis
    by (auto simp: percent_def)
qed

lemma utf8_octets: \<open>cp < 0x110000 \<Longrightarrow> b \<in> set (utf8 cp) \<Longrightarrow> b < 256\<close>
  by (auto simp: utf8_def split: if_splits)



lemma escape_chars:
  \<open>cp < 0x110000 \<Longrightarrow> u \<in> set (concat (map percent (utf8 cp))) \<Longrightarrow> uriUnescaped u \<or> u = 0x25\<close>
  by (auto dest: utf8_octets percent_chars)


lemma followed_by_Inr:
  \<open>followed_by r res = Inr enc \<longleftrightarrow> (\<exists>s. res = Inr s \<and> enc = r @ s)\<close>
  by (cases res) auto


lemma unit_code_point: \<open>unat (c :: 16 word) < 0x110000\<close>
proof -
  have \<open>unat c < 2 ^ 16\<close>
    using unsigned_less [of c] by simp
  then show ?thesis by simp
qed

lemma pair_code_point:
  assumes \<open>\<not> (c < 0xD800 \<or> 0xDFFF < c)\<close> \<open>\<not> 0xDC00 \<le> c\<close> \<open>0xDC00 \<le> l \<and> l \<le> 0xDFFF\<close>
  shows \<open>0x10000 + (unat (c :: 16 word) - 0xD800) * 0x400 + (unat (l :: 16 word) - 0xDC00) < 0x110000\<close>
proof -
  from assms have \<open>unat c < 0xDC00\<close> \<open>unat l \<le> 0xDFFF\<close>
    by (simp_all add: word_le_nat_alt word_less_nat_alt)
  then have \<open>unat c - 0xD800 \<le> 0x3FF\<close> \<open>unat l - 0xDC00 \<le> 0x3FF\<close>
    by simp_all
  then have \<open>(unat c - 0xD800) * 0x400 \<le> 0x3FF * 0x400\<close>
    by (simp only: mult_le_mono1)
  with \<open>unat l - 0xDC00 \<le> 0x3FF\<close> show ?thesis
    by simp
qed

lemma encodeURIComponent_chars:
  \<open>encodeURIComponent x = Inr enc \<Longrightarrow> u \<in> set enc \<Longrightarrow> uriUnescaped u \<or> u = 0x25\<close>
proof (induction x arbitrary: enc rule: encodeURIComponent.induct)
  case 1
  then show ?case by simp
next
  case (2 c cs)
  show ?case
  proof (cases \<open>uriUnescaped c\<close>)
    case True
    with "2.prems" obtain s where s: \<open>encodeURIComponent cs = Inr s\<close> \<open>enc = [c] @ s\<close>
      by (auto simp: followed_by_Inr)
    with "2.prems"(2) "2.IH"(1) [OF True s(1)] True show ?thesis
      by auto
  next
    case esc: False
    show ?thesis
    proof (cases \<open>c < 0xD800 \<or> 0xDFFF < c\<close>)
      case True
      with esc "2.prems" obtain s where s: \<open>encodeURIComponent cs = Inr s\<close>
        \<open>enc = concat (map percent (utf8 (unat c))) @ s\<close>
        by (auto simp: followed_by_Inr)
      from "2.prems"(2) s(2) consider \<open>u \<in> set (concat (map percent (utf8 (unat c))))\<close> | \<open>u \<in> set s\<close>
        by auto
      then show ?thesis
      proof cases
        case 1
        from escape_chars [OF unit_code_point this] show ?thesis .
      next
        case 2
        from "2.IH"(2) [OF esc True s(1) this] show ?thesis .
      qed
    next
      case sur: False
      with esc "2.prems"(1) have low: \<open>\<not> 0xDC00 \<le> c\<close>
        by (auto split: if_splits)
      with esc sur "2.prems"(1) obtain l rest where cs: \<open>cs = l # rest\<close>
        by (cases cs) auto
      with esc sur low "2.prems"(1) have l: \<open>0xDC00 \<le> l \<and> l \<le> 0xDFFF\<close>
        by (auto split: if_splits)
      let ?cp = \<open>0x10000 + (unat c - 0xD800) * 0x400 + (unat l - 0xDC00)\<close>
      from esc sur low cs l "2.prems"(1) obtain s where s: \<open>encodeURIComponent rest = Inr s\<close>
        \<open>enc = concat (map percent (utf8 ?cp)) @ s\<close>
        by (auto simp: followed_by_Inr)
      from "2.prems"(2) s(2) consider \<open>u \<in> set (concat (map percent (utf8 ?cp)))\<close> | \<open>u \<in> set s\<close>
        by auto
      then show ?thesis
      proof cases
        case 1
        from escape_chars [OF pair_code_point [OF sur low l] this] show ?thesis .
      next
        case 2
        from "2.IH"(3) [OF esc sur low cs l s(1) this] show ?thesis .
      qed
    qed
  qed
qed

lemma encodeURIComponent_unescaped:
  \<open>list_all uriUnescaped x \<Longrightarrow> encodeURIComponent x = Inr x\<close>
  by (induction x) simp_all



lemma unescaped_plain:
  \<open>uriUnescaped u \<or> u = 0x25 \<Longrightarrow> u \<noteq> semicolon \<and> u \<noteq> equals_sign \<and> \<not> is_wsp u\<close>
  by (auto simp: uriUnescaped_def is_wsp_def)

lemma dropWhile_hd: \<open>xs \<noteq> [] \<Longrightarrow> \<not> P (hd xs) \<Longrightarrow> dropWhile P xs = xs\<close>
  by (cases xs) simp_all

lemma trim_wsp_id:
  assumes \<open>s = [] \<or> (\<not> is_wsp (hd s) \<and> \<not> is_wsp (last s))\<close>
  shows \<open>trim_wsp s = s\<close>
proof (cases \<open>s = []\<close>)
  case True
  then show ?thesis by (simp add: trim_wsp_def)
next
  case False
  with assms have h: \<open>\<not> is_wsp (hd s)\<close> and l: \<open>\<not> is_wsp (last s)\<close>
    by simp_all
  have front: \<open>dropWhile is_wsp s = s\<close>
    using False h by (rule dropWhile_hd [where P = is_wsp])
  have \<open>hd (rev s) = last s\<close>
    using False by (simp add: hd_rev)
  with l have \<open>\<not> is_wsp (hd (rev s))\<close>
    by simp
  moreover have \<open>rev s \<noteq> []\<close>
    using False by simp
  ultimately have rear: \<open>dropWhile is_wsp (rev s) = rev s\<close>
    by (intro dropWhile_hd [where P = is_wsp])
  show ?thesis
    unfolding trim_wsp_def front rear by simp
qed

lemma map_of_store_cookie: \<open>map_of (store_cookie k v entries) k = Some v\<close>
  by (induction k v entries rule: store_cookie.induct) simp_all


lemma dropWhile_until: \<open>e \<notin> set k \<Longrightarrow> dropWhile (\<lambda>u. u \<noteq> e) (k @ e # rest) = e # rest\<close>
  by (induction k) auto

text \<open>What the cookie assignment of \<open>set\<close> does to the jar.\<close>

lemma assign_plain_cookie:
  assumes k: \<open>plain_cookie_name k\<close>
    and v: \<open>\<forall>u \<in> set v. u \<noteq> semicolon \<and> u \<noteq> equals_sign \<and> \<not> is_wsp u\<close>
  shows \<open>assign_document_cookie (k @ js ''='' @ v @ js '';path=/;max-age=31536000;SameSite=Lax'') entries =
           store_cookie k v entries\<close>
proof -
  let ?rest = \<open>js ''path=/;max-age=31536000;SameSite=Lax''\<close>
  have s: \<open>k @ js ''='' @ v @ js '';path=/;max-age=31536000;SameSite=Lax'' =
      (k @ equals_sign # v) @ semicolon # ?rest\<close>
    by simp
  have clean: \<open>semicolon \<notin> set (k @ equals_sign # v)\<close>
    using k v by (auto simp: plain_cookie_name_def)
  have pair: \<open>takeWhile (\<lambda>u. u \<noteq> semicolon) ((k @ equals_sign # v) @ semicolon # ?rest) =
      k @ equals_sign # v\<close>
    by (rule takeWhile_until [OF clean])
  have ke: \<open>equals_sign \<notin> set k\<close>
    using k by (simp add: plain_cookie_name_def)
  have name: \<open>takeWhile (\<lambda>u. u \<noteq> equals_sign) (k @ equals_sign # v) = k\<close>
    by (rule takeWhile_until [OF ke])
  have val: \<open>drop 1 (dropWhile (\<lambda>u. u \<noteq> equals_sign) (k @ equals_sign # v)) = v\<close>
    unfolding dropWhile_until [OF ke] by simp
  have tk: \<open>trim_wsp k = k\<close>
    using k by (intro trim_wsp_id) (simp add: plain_cookie_name_def)
  have tv: \<open>trim_wsp v = v\<close>
  proof (rule trim_wsp_id, cases \<open>v = []\<close>)
    case True
    then show \<open>v = [] \<or> (\<not> is_wsp (hd v) \<and> \<not> is_wsp (last v))\<close> by simp
  next
    case False
    then have \<open>hd v \<in> set v\<close> \<open>last v \<in> set v\<close>
      by simp_all
    with v show \<open>v = [] \<or> (\<not> is_wsp (hd v) \<and> \<not> is_wsp (last v))\<close>
      by blast
  qed
  have kne: \<open>k \<noteq> []\<close>
    using k by (simp add: plain_cookie_name_def)
  show ?thesis
    unfolding s assign_document_cookie_def pair Let_def name val tk tv
    using kne by simp
qed

section \<open>The write path and the round trip\<close>

lemma setProperty_same:
  \<open>setProperty E st name v name =
     (if v = [] then None else case E name v of None \<Rightarrow> st name | Some stored \<Rightarrow> Some stored)\<close>
  by (simp add: setProperty_def split: option.splits)


lemma getPropertyValue_setProperty:
  \<open>getPropertyValue (setProperty E st name v) name =
     (if v = [] then []
      else case E name v of None \<Rightarrow> getPropertyValue st name | Some stored \<Rightarrow> stored)\<close>
  by (simp add: getPropertyValue_def setProperty_same split: option.splits)

lemma Provider_set_Inr:
  \<open>Provider_set config next w = Inr w' \<longleftrightarrow>
     (\<exists>live enc. doc w = Some live \<and> encodeURIComponent next = Inr enc \<and>
        w' = w\<lparr>valueState := next,
               doc := Some (live\<lparr>style := setProperty (engine live) (style live) (cssVar config) next,
                 jar := assign_document_cookie
                   (cookie config @ js ''='' @ enc @ js '';path=/;max-age=31536000;SameSite=Lax'')
                   (jar live)\<rparr>)\<rparr>)\<close>
  by (auto simp: Provider_set_def cookie_assignment_def Let_def split: option.splits sum.splits)




lemma escape_length: \<open>3 \<le> length (concat (map percent (utf8 cp)))\<close>
  by (simp add: utf8_def percent_def)

lemma encodeURIComponent_length:
  \<open>encodeURIComponent x = Inr enc \<Longrightarrow>
   length x \<le> length enc \<and> (length enc = length x \<longrightarrow> list_all uriUnescaped x)\<close>
proof (induction x arbitrary: enc rule: encodeURIComponent.induct)
  case 1
  then show ?case by simp
next
  case (2 c cs)
  show ?case
  proof (cases \<open>uriUnescaped c\<close>)
    case True
    with "2.prems" obtain s where s: \<open>encodeURIComponent cs = Inr s\<close> \<open>enc = [c] @ s\<close>
      by (auto simp: followed_by_Inr)
    with "2.IH"(1) [OF True s(1)] True show ?thesis
      by simp
  next
    case esc: False
    show ?thesis
    proof (cases \<open>c < 0xD800 \<or> 0xDFFF < c\<close>)
      case True
      with esc "2.prems" obtain s where s: \<open>encodeURIComponent cs = Inr s\<close>
        \<open>enc = concat (map percent (utf8 (unat c))) @ s\<close>
        by (auto simp: followed_by_Inr)
      from "2.IH"(2) [OF esc True s(1)] have \<open>length cs \<le> length s\<close>
        by simp
      with escape_length [of \<open>unat c\<close>] s(2) show ?thesis
        by simp
    next
      case sur: False
      with esc "2.prems" have low: \<open>\<not> 0xDC00 \<le> c\<close>
        by (auto split: if_splits)
      with esc sur "2.prems" obtain l rest where cs: \<open>cs = l # rest\<close>
        by (cases cs) auto
      with esc sur low "2.prems" have l: \<open>0xDC00 \<le> l \<and> l \<le> 0xDFFF\<close>
        by (auto split: if_splits)
      let ?cp = \<open>0x10000 + (unat c - 0xD800) * 0x400 + (unat l - 0xDC00)\<close>
      from esc sur low cs l "2.prems" obtain s where s: \<open>encodeURIComponent rest = Inr s\<close>
        \<open>enc = concat (map percent (utf8 ?cp)) @ s\<close>
        by (auto simp: followed_by_Inr)
      from "2.IH"(3) [OF esc sur low cs l s(1)] have \<open>length rest \<le> length s\<close>
        by simp
      with escape_length [of ?cp] s(2) cs show ?thesis
        by simp
    qed
  qed
qed

lemma encodeURIComponent_same_iff:
  assumes \<open>encodeURIComponent x = Inr enc\<close>
  shows \<open>enc = x \<longleftrightarrow> list_all uriUnescaped x\<close>
proof
  assume \<open>enc = x\<close>
  with encodeURIComponent_length [OF assms] show \<open>list_all uriUnescaped x\<close>
    by simp
next
  assume \<open>list_all uriUnescaped x\<close>
  from encodeURIComponent_unescaped [OF this] assms show \<open>enc = x\<close>
    by simp
qed

text \<open>
  C7, as the code has it. When the value can be percent-encoded, the string \<open>set\<close>
  assigns to \<^verbatim>\<open>document.cookie\<close> is, character for character, the cookie name, \<open>=\<close>, the
  percent-encoded value and \<^verbatim>\<open>;path=/;max-age=31536000;SameSite=Lax\<close>, with no space
  after any \<open>;\<close>. When the value holds a surrogate code unit outside a pair,
  \<^verbatim>\<open>encodeURIComponent\<close> throws and nothing is assigned.
\<close>

theorem persisted_store_write_format:
  \<open>(\<forall>enc. encodeURIComponent next = Inr enc \<longrightarrow>
      cookie_assignment config next =
        Inr (cookie config @ js ''='' @ enc @ js '';path=/;max-age=31536000;SameSite=Lax'') \<and>
      (\<forall>live. doc w = Some live \<longrightarrow>
         (\<exists>w'. Provider_set config next w = Inr w' \<and>
            map_option jar (doc w') =
              Some (assign_document_cookie
                (cookie config @ js ''='' @ enc @ js '';path=/;max-age=31536000;SameSite=Lax'')
                (jar live))))) \<and>
   (\<forall>e. encodeURIComponent next = Inl e \<longrightarrow>
      cookie_assignment config next = Inl e \<and>
      (\<forall>live. doc w = Some live \<longrightarrow>
         (\<exists>w'. Provider_set config next w = Inl (e, w') \<and>
            map_option jar (doc w') = Some (jar live))))\<close>
  by (auto simp: cookie_assignment_def Provider_set_def Let_def)

theorem persisted_store_write_format_witness:
  \<open>encodeURIComponent (js ''hello world'') = Inr (js ''hello%20world'') \<and>
   cookie_assignment \<lparr>cookie = js ''sw'', cssVar = js ''--sw'', defaultValue = js ''280''\<rparr>
     (js ''hello world'') =
     Inr (js ''sw=hello%20world;path=/;max-age=31536000;SameSite=Lax'') \<and>
   (\<exists>w'. Provider_set \<lparr>cookie = js ''sw'', cssVar = js ''--sw'', defaultValue = js ''280''\<rparr>
       (js ''hello world'')
       \<lparr>doc = Some \<lparr>style = Map.empty, jar = [], engine = trimming_engine\<rparr>, valueState = js ''280'', mountedState = False\<rparr> =
       Inr w' \<and>
     map_option jar (doc w') =
       Some (assign_document_cookie
         (js ''sw=hello%20world;path=/;max-age=31536000;SameSite=Lax'') [])) \<and>
   encodeURIComponent [0xD83D] = Inl URIError \<and>
   cookie_assignment \<lparr>cookie = js ''sw'', cssVar = js ''--sw'', defaultValue = js ''280''\<rparr> [0xD83D] =
     Inl URIError\<close>
proof -
  let ?cfg = \<open>\<lparr>cookie = js ''sw'', cssVar = js ''--sw'', defaultValue = js ''280''\<rparr>\<close>
  let ?w = \<open>\<lparr>doc = Some \<lparr>style = Map.empty, jar = [], engine = trimming_engine\<rparr>, valueState = js ''280'',
    mountedState = False\<rparr>\<close>
  have enc: \<open>encodeURIComponent (js ''hello world'') = Inr (js ''hello%20world'')\<close>
    by (simp add: uriUnescaped_def percent_def utf8_def hexDigit_def)
  have live: \<open>doc ?w = Some \<lparr>style = Map.empty, jar = [], engine = trimming_engine\<rparr>\<close>
    by simp
  have err: \<open>encodeURIComponent [0xD83D] = Inl URIError\<close>
    by (simp add: uriUnescaped_def)
  from persisted_store_write_format [of \<open>js ''hello world''\<close> ?cfg ?w] enc live
  have \<open>cookie_assignment ?cfg (js ''hello world'') =
      Inr (cookie ?cfg @ js ''='' @ js ''hello%20world'' @ js '';path=/;max-age=31536000;SameSite=Lax'') \<and>
    (\<exists>w'. Provider_set ?cfg (js ''hello world'') ?w = Inr w' \<and>
       map_option jar (doc w') =
         Some (assign_document_cookie
           (cookie ?cfg @ js ''='' @ js ''hello%20world'' @ js '';path=/;max-age=31536000;SameSite=Lax'')
           (jar \<lparr>style = Map.empty, jar = [], engine = trimming_engine\<rparr>)))\<close>
    by blast
  moreover from persisted_store_write_format [of \<open>[0xD83D]\<close> ?cfg ?w] err
  have \<open>cookie_assignment ?cfg [0xD83D] = Inl URIError\<close>
    by blast
  ultimately show ?thesis
    using enc err by simp
qed

text \<open>
  C7 as stated has a space after each \<open>;\<close>; the assigned string has none.
\<close>

theorem persisted_store_write_format_counterexample:
  \<open>cookie_assignment \<lparr>cookie = js ''sw'', cssVar = js ''--sw'', defaultValue = js ''280''\<rparr> (js ''300'') =
     Inr (js ''sw=300;path=/;max-age=31536000;SameSite=Lax'') \<and>
   js ''sw=300;path=/;max-age=31536000;SameSite=Lax'' \<noteq>
     js ''sw=300; path=/; max-age=31536000; SameSite=Lax''\<close>
  by (simp add: cookie_assignment_def uriUnescaped_def)

text \<open>
  C2, as the code has it. After \<open>set(x)\<close> has returned, the provider's state is \<open>x\<close>. The
  style property \<open>cssVar\<close> has been set with \<open>x\<close>: it reads what the style engine stores
  for \<open>x\<close> (nothing for the empty \<open>x\<close>, the value it had when the engine ignores \<open>x\<close>),
  which is \<open>x\<close> when the engine stores \<open>x\<close> as written. When the cookie name is a plain
  name, the cookie jar holds under it the percent-encoding of \<open>x\<close>, which is \<open>x\<close> itself
  exactly when \<open>x\<close> is made of unescaped characters only.
\<close>

theorem triple_write:
  assumes \<open>Provider_set config x w = Inr w'\<close>
  shows \<open>valueState w' = x \<and>
         (\<exists>live live' enc. doc w = Some live \<and> doc w' = Some live' \<and>
            encodeURIComponent x = Inr enc \<and>
            getPropertyValue (style live') (cssVar config) =
              (if x = [] then []
               else case engine live (cssVar config) x of
                      None \<Rightarrow> getPropertyValue (style live) (cssVar config)
                    | Some stored \<Rightarrow> stored) \<and>
            (engine live (cssVar config) x = Some x \<longrightarrow>
               getPropertyValue (style live') (cssVar config) = x) \<and>
            (plain_cookie_name (cookie config) \<longrightarrow>
               map_of (jar live') (cookie config) = Some enc) \<and>
            (enc = x \<longleftrightarrow> list_all uriUnescaped x))\<close>
proof -
  let ?text = \<open>\<lambda>enc. cookie config @ js ''='' @ enc @ js '';path=/;max-age=31536000;SameSite=Lax''\<close>
  from assms obtain live enc where live: \<open>doc w = Some live\<close>
    and enc: \<open>encodeURIComponent x = Inr enc\<close>
    and w': \<open>w' = w\<lparr>valueState := x,
               doc := Some (live\<lparr>style := setProperty (engine live) (style live) (cssVar config) x,
                 jar := assign_document_cookie (?text enc) (jar live)\<rparr>)\<rparr>\<close>
    unfolding Provider_set_Inr by blast
  let ?live' = \<open>live\<lparr>style := setProperty (engine live) (style live) (cssVar config) x,
                 jar := assign_document_cookie (?text enc) (jar live)\<rparr>\<close>
  have doc': \<open>doc w' = Some ?live'\<close>
    unfolding w' by simp
  have plain: \<open>\<forall>u \<in> set enc. u \<noteq> semicolon \<and> u \<noteq> equals_sign \<and> \<not> is_wsp u\<close>
    using encodeURIComponent_chars [OF enc] unescaped_plain by blast
  have hook: \<open>getPropertyValue (style ?live') (cssVar config) =
      (if x = [] then []
       else case engine live (cssVar config) x of
              None \<Rightarrow> getPropertyValue (style live) (cssVar config)
            | Some stored \<Rightarrow> stored)\<close>
    by (simp add: getPropertyValue_setProperty)
  have written: \<open>getPropertyValue (style ?live') (cssVar config) = x\<close>
    if \<open>engine live (cssVar config) x = Some x\<close>
    unfolding hook using that by simp
  have stored: \<open>map_of (jar ?live') (cookie config) = Some enc\<close>
    if \<open>plain_cookie_name (cookie config)\<close>
    using assign_plain_cookie [OF that plain, of \<open>jar live\<close>] by (simp add: map_of_store_cookie)
  have same: \<open>enc = x \<longleftrightarrow> list_all uriUnescaped x\<close>
    by (rule encodeURIComponent_same_iff [OF enc])
  have \<open>valueState w' = x\<close>
    unfolding w' by simp
  with live doc' enc hook written stored same show ?thesis
    by blast
qed

theorem triple_write_witness:
  \<open>Provider_set \<lparr>cookie = js ''test-val'', cssVar = js ''--test-val'', defaultValue = js ''100''\<rparr>
     (js ''999'')
     \<lparr>doc = Some \<lparr>style = Map.empty, jar = [], engine = trimming_engine\<rparr>,
      valueState = js ''100'', mountedState = False\<rparr> =
   Inr \<lparr>doc = Some \<lparr>style = [js ''--test-val'' \<mapsto> js ''999''],
                      jar = [(js ''test-val'', js ''999'')], engine = trimming_engine\<rparr>,
        valueState = js ''999'', mountedState = False\<rparr> \<and>
   trimming_engine (js ''--test-val'') (js ''999'') = Some (js ''999'') \<and>
   plain_cookie_name (js ''test-val'') \<and> list_all uriUnescaped (js ''999'') \<and>
   getPropertyValue [js ''--test-val'' \<mapsto> js ''999''] (js ''--test-val'') = js ''999'' \<and>
   encodeURIComponent (js ''999'') = Inr (js ''999'') \<and>
   map_of [(js ''test-val'', js ''999'')] (js ''test-val'') = Some (js ''999'')\<close>
proof -
  let ?cfg = \<open>\<lparr>cookie = js ''test-val'', cssVar = js ''--test-val'', defaultValue = js ''100''\<rparr>\<close>
  let ?old = \<open>\<lparr>style = Map.empty, jar = [], engine = trimming_engine\<rparr>\<close>
  let ?w = \<open>\<lparr>doc = Some ?old, valueState = js ''100'', mountedState = False\<rparr>\<close>
  let ?live = \<open>\<lparr>style = [js ''--test-val'' \<mapsto> js ''999''], jar = [(js ''test-val'', js ''999'')],
    engine = trimming_engine\<rparr>\<close>
  let ?w' = \<open>\<lparr>doc = Some ?live, valueState = js ''999'', mountedState = False\<rparr>\<close>
  have h: \<open>Provider_set ?cfg (js ''999'') ?w = Inr ?w'\<close>
    by (simp add: Provider_set_def cookie_assignment_def setProperty_def uriUnescaped_def
        assign_document_cookie_def trimming_engine_def trim_wsp_def is_wsp_def)
  have kept: \<open>trimming_engine (js ''--test-val'') (js ''999'') = Some (js ''999'')\<close>
    by (simp add: trimming_engine_def trim_wsp_def is_wsp_def)
  have name: \<open>plain_cookie_name (js ''test-val'')\<close>
    by (simp add: plain_cookie_name_def is_wsp_def)
  have safe: \<open>list_all uriUnescaped (js ''999'')\<close>
    by (simp add: uriUnescaped_def)
  from triple_write [OF h] obtain live live' enc where r: \<open>doc ?w = Some live\<close>
    \<open>doc ?w' = Some live'\<close>
    \<open>encodeURIComponent (js ''999'') = Inr enc\<close>
    \<open>engine live (cssVar ?cfg) (js ''999'') = Some (js ''999'') \<longrightarrow>
       getPropertyValue (style live') (cssVar ?cfg) = js ''999''\<close>
    \<open>plain_cookie_name (cookie ?cfg) \<longrightarrow> map_of (jar live') (cookie ?cfg) = Some enc\<close>
    \<open>enc = js ''999'' \<longleftrightarrow> list_all uriUnescaped (js ''999'')\<close>
    by blast
  from r(1) have live: \<open>live = ?old\<close>
    by simp
  from r(2) have live': \<open>live' = ?live\<close>
    by simp
  from r(6) safe have enc: \<open>enc = js ''999''\<close>
    by blast
  from r(3,4,5) name kept show ?thesis
    unfolding live live' enc using h safe by simp
qed

text \<open>
  C2 as stated, for every string, fails for the second and the third location: after
  \<open>set(" 300 ")\<close> the state holds \<open> 300 \<close>, the style property reads \<open>300\<close> and the cookie
  holds \<open>%20300%20\<close>.
\<close>

theorem triple_write_counterexample:
  \<open>(case Provider_set \<lparr>cookie = js ''sw'', cssVar = js ''--sw'', defaultValue = js ''280''\<rparr>
           (js '' 300 '')
           \<lparr>doc = Some \<lparr>style = Map.empty, jar = [], engine = trimming_engine\<rparr>,
            valueState = js ''280'', mountedState = False\<rparr> of
      Inl failed \<Rightarrow> None
    | Inr w' \<Rightarrow>
        map_option
          (\<lambda>live. (valueState w', getPropertyValue (style live) (js ''--sw''),
                    map_of (jar live) (js ''sw'')))
          (doc w')) =
   Some (js '' 300 '', js ''300'', Some (js ''%20300%20''))\<close>
  by (simp add: Provider_set_def cookie_assignment_def setProperty_def getPropertyValue_def
      uriUnescaped_def percent_def utf8_def hexDigit_def
      assign_document_cookie_def trimming_engine_def trim_wsp_def is_wsp_def)




end
